theory Spec2Isabelle
  imports Complex_Main "HOL-Library.Log_Nat"
begin

section \<open>JavaScript numbers\<close>

text \<open>
  A JavaScript \<open>number\<close> is a binary64 value of IEEE 754: a finite value, given here by the
  real number it denotes, or one of \<open>Infinity\<close>, \<open>-Infinity\<close> and \<open>NaN\<close>.  The sign of
  zero is not part of the model: all operands that reach a division in the program are
  parsed from unsigned numerals, so a zero divisor is always \<open>+0\<close>.
\<close>

datatype jsnum = Fin real | PosInf | NegInf | NaN

text \<open>
  Rounding to the nearest binary64 value, ties to even.  \<open>ilog2 x\<close> is the integer part
  of the binary logarithm of a positive \<open>x\<close>; the unit in the last place of the result is
  \<open>2\<close> to the power \<open>ilog2 \<bar>x\<bar> - 52\<close>, and not below \<open>-1074\<close>, where the subnormal
  numbers are; a result of magnitude \<open>2 ^ 1024\<close> or more is infinite.
\<close>

definition ilog2 :: "real \<Rightarrow> int" where
  "ilog2 x =
     (if 1 \<le> x then int (floorlog 2 (nat \<lfloor>x\<rfloor>)) - 1
      else - int (floorlog 2 (nat (\<lceil>1 / x\<rceil> - 1))))"

definition round_half_even :: "real \<Rightarrow> int" where
  "round_half_even q =
     (let f = \<lfloor>q\<rfloor>; d = q - of_int f
      in if d < 1 / 2 then f else if 1 / 2 < d then f + 1 else if even f then f else f + 1)"

definition round64 :: "real \<Rightarrow> jsnum" where
  "round64 x =
     (if x = 0 then Fin 0
      else
        (let e = max (ilog2 \<bar>x\<bar> - 52) (- 1074);
             y = of_int (round_half_even (x / 2 powi e)) * 2 powi e
         in if 2 ^ 1024 \<le> \<bar>y\<bar> then (if 0 < x then PosInf else NegInf) else Fin y))"

text \<open>
  The arithmetic operators: the exact result of two finite operands is rounded; the
  results on the special values are those of IEEE 754.
\<close>

fun js_neg :: "jsnum \<Rightarrow> jsnum" where
  "js_neg (Fin a) = Fin (- a)"
| "js_neg PosInf = NegInf"
| "js_neg NegInf = PosInf"
| "js_neg NaN = NaN"

fun js_add :: "jsnum \<Rightarrow> jsnum \<Rightarrow> jsnum" where
  "js_add NaN _ = NaN"
| "js_add _ NaN = NaN"
| "js_add (Fin a) (Fin b) = round64 (a + b)"
| "js_add PosInf NegInf = NaN"
| "js_add NegInf PosInf = NaN"
| "js_add PosInf _ = PosInf"
| "js_add NegInf _ = NegInf"
| "js_add _ PosInf = PosInf"
| "js_add _ NegInf = NegInf"

definition js_sub :: "jsnum \<Rightarrow> jsnum \<Rightarrow> jsnum" where
  "js_sub a b = js_add a (js_neg b)"

text \<open>The sign of a number: \<open>1\<close>, \<open>0\<close> or \<open>-1\<close>; \<open>NaN\<close> has none.\<close>

fun js_sign :: "jsnum \<Rightarrow> int option" where
  "js_sign (Fin a) = Some (if a > 0 then 1 else if a < 0 then - 1 else 0)"
| "js_sign PosInf = Some 1"
| "js_sign NegInf = Some (- 1)"
| "js_sign NaN = None"

definition inf_of_sign :: "int \<Rightarrow> jsnum" where
  "inf_of_sign sg = (if sg = 0 then NaN else if sg > 0 then PosInf else NegInf)"

fun js_mul :: "jsnum \<Rightarrow> jsnum \<Rightarrow> jsnum" where
  "js_mul NaN _ = NaN"
| "js_mul _ NaN = NaN"
| "js_mul (Fin a) (Fin b) = round64 (a * b)"
| "js_mul a b = inf_of_sign (the (js_sign a) * the (js_sign b))"

fun js_div :: "jsnum \<Rightarrow> jsnum \<Rightarrow> jsnum" where
  "js_div NaN _ = NaN"
| "js_div _ NaN = NaN"
| "js_div (Fin a) (Fin b) =
     (if b = 0 then (if a = 0 then NaN else if a > 0 then PosInf else NegInf)
      else round64 (a / b))"
| "js_div (Fin a) _ = Fin 0"
| "js_div a (Fin b) = inf_of_sign (the (js_sign a) * (if b < 0 then - 1 else 1))"
| "js_div _ _ = NaN"

text \<open>
  \<open>x ** y\<close>.  ECMAScript fixes the result where an operand is \<open>NaN\<close>, infinite or zero,
  and for a negative base with a fractional exponent; for any other finite base and
  exponent the result is an implementation-approximated value of the power, which is the
  parameter \<open>approx\<close> here.
\<close>

fun js_pow :: "(real \<Rightarrow> real \<Rightarrow> jsnum) \<Rightarrow> jsnum \<Rightarrow> jsnum \<Rightarrow> jsnum" where
  "js_pow approx x NaN = NaN"
| "js_pow approx x (Fin y) =
     (if y = 0 then Fin 1
      else case x of
        NaN \<Rightarrow> NaN
      | PosInf \<Rightarrow> (if 0 < y then PosInf else Fin 0)
      | NegInf \<Rightarrow>
          (if y < 0 then Fin 0
           else if of_int \<lfloor>y\<rfloor> = y \<and> odd \<lfloor>y\<rfloor> then NegInf else PosInf)
      | Fin a \<Rightarrow>
          (if a = 0 then (if 0 < y then Fin 0 else PosInf)
           else if a < 0 \<and> of_int \<lfloor>y\<rfloor> \<noteq> y then NaN
           else approx a y))"
| "js_pow approx x PosInf =
     (case x of
        NaN \<Rightarrow> NaN
      | Fin a \<Rightarrow> (if 1 < \<bar>a\<bar> then PosInf else if \<bar>a\<bar> = 1 then NaN else Fin 0)
      | _ \<Rightarrow> PosInf)"
| "js_pow approx x NegInf =
     (case x of
        NaN \<Rightarrow> NaN
      | Fin a \<Rightarrow> (if 1 < \<bar>a\<bar> then Fin 0 else if \<bar>a\<bar> = 1 then NaN else PosInf)
      | _ \<Rightarrow> Fin 0)"

text \<open>\<open>Math.round\<close>: the nearest integer, a tie going towards \<open>+\<infinity>\<close>.\<close>

fun Math_round :: "jsnum \<Rightarrow> jsnum" where
  "Math_round (Fin a) = Fin (of_int \<lfloor>a + 1 / 2\<rfloor>)"
| "Math_round x = x"

fun is_finite :: "jsnum \<Rightarrow> bool" where
  "is_finite (Fin _) = True"
| "is_finite _ = False"

text \<open>A number that is neither negative nor \<open>NaN\<close>.\<close>

fun nonneg_num :: "jsnum \<Rightarrow> bool" where
  "nonneg_num (Fin a) = (0 \<le> a)"
| "nonneg_num PosInf = True"
| "nonneg_num _ = False"


section \<open>Strings and the two regular expressions\<close>

text \<open>
  A string is a list of 8-bit code units.  The character classes are those of
  ECMAScript restricted to that range: \<open>\d\<close> is \<open>[0-9]\<close>, \<open>\s\<close> is tab, line feed,
  vertical tab, form feed, carriage return, space and no-break space, and \<open>.\<close> is
  everything but line feed and carriage return.
\<close>

definition is_digit :: "char \<Rightarrow> bool" where
  "is_digit c = (c \<in> set ''0123456789'')"

definition is_space :: "char \<Rightarrow> bool" where
  "is_space c = (c \<in> set [CHR 0x09, CHR 0x0A, CHR 0x0B, CHR 0x0C, CHR 0x0D, CHR 0x20, CHR 0xA0])"

definition is_unit :: "char \<Rightarrow> bool" where
  "is_unit c = (c \<in> set ''kKmMbB'')"

definition is_dot_char :: "char \<Rightarrow> bool" where
  "is_dot_char c = (c \<noteq> CHR 0x0A \<and> c \<noteq> CHR 0x0D)"

text \<open>
  A regular expression is run as the backtracking matcher of ECMAScript runs it: each
  piece maps the remaining input to the list of its possible matches, each with the
  input left over, in the order in which the matcher tries them.  Sequencing is the list
  comprehension; the match found is the head of the list.
\<close>

type_synonym 'a matcher = "string \<Rightarrow> ('a \<times> string) list"

text \<open>\<open>c*\<close> for a character class, greedy: the longest run first.\<close>

fun star :: "(char \<Rightarrow> bool) \<Rightarrow> string matcher" where
  "star P [] = [([], [])]"
| "star P (c # cs) =
     (if P c then map (\<lambda>(t, r). (c # t, r)) (star P cs) else []) @ [([], c # cs)]"

text \<open>\<open>c*?\<close>, lazy: the shortest run first.\<close>

fun star_lazy :: "(char \<Rightarrow> bool) \<Rightarrow> string matcher" where
  "star_lazy P [] = [([], [])]"
| "star_lazy P (c # cs) =
     ([], c # cs) # (if P c then map (\<lambda>(t, r). (c # t, r)) (star_lazy P cs) else [])"

text \<open>\<open>c+\<close>, greedy.\<close>

definition plus1 :: "(char \<Rightarrow> bool) \<Rightarrow> string matcher" where
  "plus1 P s = filter (\<lambda>(t, r). t \<noteq> []) (star P s)"

text \<open>A literal character.\<close>

fun lit :: "char \<Rightarrow> string matcher" where
  "lit a [] = []"
| "lit a (c # cs) = (if c = a then [([c], cs)] else [])"

text \<open>\<open>(?:\.\d+)?\<close>: the fraction first, then the empty match.\<close>

definition opt_fraction :: "string matcher" where
  "opt_fraction s =
     [(d @ f, r). (d, r0) \<leftarrow> lit CHR ''.'' s, (f, r) \<leftarrow> plus1 is_digit r0] @ [([], s)]"

text \<open>\<open>\d+(?:\.\d+)?\<close>\<close>

definition number :: "string matcher" where
  "number s = [(d @ f, r). (d, r0) \<leftarrow> plus1 is_digit s, (f, r) \<leftarrow> opt_fraction r0]"

text \<open>\<open>[kKmMbB]?\<close>: the letter first, then the empty match.\<close>

fun opt_unit :: "string matcher" where
  "opt_unit [] = [([], [])]"
| "opt_unit (c # cs) = (if is_unit c then [([c], cs)] else []) @ [([], c # cs)]"

text \<open>
  \<^verbatim>\<open>/(\d+(?:\.\d+)?)\s*([kKmMbB]?)\s*\/\s*(\d+(?:\.\d+)?)\s*([kKmMbB]?)/\<close>
  tried at the start of the given input; each match carries its four groups.
\<close>

type_synonym groups = "string \<times> string \<times> string \<times> string"

definition population_at :: "groups matcher" where
  "population_at s =
     [((g1, g2, g3, g4), r11).
        (g1, r1) \<leftarrow> number s,
        (w1, r2) \<leftarrow> star is_space r1,
        (g2, r3) \<leftarrow> opt_unit r2,
        (w2, r4) \<leftarrow> star is_space r3,
        (sl, r5) \<leftarrow> lit CHR ''/'' r4,
        (w3, r6) \<leftarrow> star is_space r5,
        (g3, r7) \<leftarrow> number r6,
        (w4, r8) \<leftarrow> star is_space r7,
        (g4, r11) \<leftarrow> opt_unit r8]"

text \<open>
  \<open>String.prototype.match\<close> without the global flag: the first start position, from the
  left, at which the expression matches, and the first match there.
\<close>

fun population_match :: "string \<Rightarrow> groups option" where
  "population_match [] = (case population_at [] of [] \<Rightarrow> None | (g, r) # _ \<Rightarrow> Some g)"
| "population_match (c # cs) =
     (case population_at (c # cs) of [] \<Rightarrow> population_match cs | (g, r) # _ \<Rightarrow> Some g)"

text \<open>
  \<^verbatim>\<open>/^(.*?)(?:\s*\([^)]*\))?$/\<close>, with which \<open>updatePopulationDisplay\<close> takes the text
  before one trailing annotation in parentheses.  \<open>annotation\<close> is the group
  \<^verbatim>\<open>\s*\([^)]*\)\<close>; it is optional and tried first.  The expression is anchored at the
  start, the first group is lazy, and the end anchor asks that no input is left.
\<close>

definition annotation :: "string matcher" where
  "annotation s =
     [(w @ a @ b @ c, r4).
        (w, r1) \<leftarrow> star is_space s,
        (a, r2) \<leftarrow> lit CHR ''('' r1,
        (b, r3) \<leftarrow> star (\<lambda>x. x \<noteq> CHR '')'') r2,
        (c, r4) \<leftarrow> lit CHR '')'' r3]"

definition opt_annotation :: "string matcher" where
  "opt_annotation s = annotation s @ [([], s)]"

definition base_text_at :: "string \<Rightarrow> string list" where
  "base_text_at s =
     [g1. (g1, r1) \<leftarrow> star_lazy is_dot_char s, (a, r2) \<leftarrow> opt_annotation r1, r2 = []]"

definition baseTextMatch :: "string \<Rightarrow> string option" where
  "baseTextMatch s = (case base_text_at s of [] \<Rightarrow> None | g1 # _ \<Rightarrow> Some g1)"

text \<open>\<open>String.prototype.trim\<close>: white space and line terminators off both ends.\<close>

definition trim :: "string \<Rightarrow> string" where
  "trim s = rev (dropWhile is_space (rev (dropWhile is_space s)))"

text \<open>\<open>baseTextMatch ? baseTextMatch[1].trim() : textContent\<close>\<close>

definition baseText :: "string \<Rightarrow> string" where
  "baseText textContent =
     (case baseTextMatch textContent of Some g1 \<Rightarrow> trim g1 | None \<Rightarrow> textContent)"

section \<open>The value parser\<close>

text \<open>
  \<open>parseFloat\<close> on an unsigned decimal literal: the digits, and a fraction when a dot
  follows, give a decimal value, and the result is the binary64 value nearest to it; what
  comes after is ignored, and a string that starts with neither a digit nor a fraction
  gives \<open>NaN\<close>.  Leading white space, a sign, an exponent and the word
  \<open>Infinity\<close>, which the runtime's \<open>parseFloat\<close> also reads, are not modelled: the groups
  of the expression above never contain them.
\<close>

definition digit_value :: "char \<Rightarrow> nat" where
  "digit_value c =
     (case map_of (zip ''0123456789'' [0, 1, 2, 3, 4, 5, 6, 7, 8, 9]) c of
        Some n \<Rightarrow> n | None \<Rightarrow> 0)"

definition digits_value :: "string \<Rightarrow> nat" where
  "digits_value ds = foldl (\<lambda>a c. 10 * a + digit_value c) 0 ds"

definition fraction_value :: "string \<Rightarrow> real" where
  "fraction_value s =
     (case s of
        c # cs \<Rightarrow>
          (if c = CHR ''.''
           then (let f = takeWhile is_digit cs in real (digits_value f) / 10 ^ length f)
           else 0)
      | [] \<Rightarrow> 0)"

definition parseFloat :: "string \<Rightarrow> jsnum" where
  "parseFloat s =
     (let d = takeWhile is_digit s; r = dropWhile is_digit s in
      if d = [] \<and> (case r of c # e # _ \<Rightarrow> \<not> (c = CHR ''.'' \<and> is_digit e) | _ \<Rightarrow> True)
      then NaN
      else round64 (real (digits_value d) + fraction_value r))"

text \<open>\<open>String.prototype.toUpperCase\<close> on the letters of ASCII.\<close>

definition toUpperCase :: "string \<Rightarrow> string" where
  "toUpperCase s =
     map (\<lambda>c. case map_of (zip ''abcdefghijklmnopqrstuvwxyz'' ''ABCDEFGHIJKLMNOPQRSTUVWXYZ'') c of
                None \<Rightarrow> c | Some u \<Rightarrow> u) s"

definition getMultiplier :: "string \<Rightarrow> jsnum" where
  "getMultiplier multiplier =
     (if multiplier = [] then Fin 1
      else let u = toUpperCase multiplier in
        if u = ''K'' then Fin 1000
        else if u = ''M'' then Fin 1000000
        else if u = ''B'' then Fin 1000000000
        else Fin 1)"

record PopulationValues =
  current :: jsnum
  maximum :: jsnum
  percentage :: jsnum
  growthMultiplier :: jsnum

text \<open>
  The three lines of \<open>parsePopulationValues\<close> that compute the growth multiplier.  The
  literals \<open>0.07697433367625858\<close> and \<open>0.73\<close> denote the binary64 values nearest to them.
\<close>

definition maxGrowthRateForMaxPop :: "(real \<Rightarrow> real \<Rightarrow> jsnum) \<Rightarrow> jsnum \<Rightarrow> jsnum" where
  "maxGrowthRateForMaxPop approx mx =
     js_add (Fin 10)
       (js_mul (round64 0.07697433367625858) (js_pow approx mx (round64 0.73)))"

definition actualGrowthRate :: "(real \<Rightarrow> real \<Rightarrow> jsnum) \<Rightarrow> jsnum \<Rightarrow> jsnum \<Rightarrow> jsnum" where
  "actualGrowthRate approx cur mx =
     js_add (Fin 10)
       (js_mul (js_div (js_pow approx cur (round64 0.73)) (Fin 4))
          (js_sub (Fin 1) (js_div cur mx)))"

definition growth :: "(real \<Rightarrow> real \<Rightarrow> jsnum) \<Rightarrow> jsnum \<Rightarrow> jsnum \<Rightarrow> jsnum" where
  "growth approx cur mx =
     js_div (actualGrowthRate approx cur mx) (maxGrowthRateForMaxPop approx mx)"

definition parsePopulationValues ::
  "(real \<Rightarrow> real \<Rightarrow> jsnum) \<Rightarrow> string \<Rightarrow> PopulationValues option" where
  "parsePopulationValues approx populationText =
     (case population_match populationText of
        None \<Rightarrow> None
      | Some (g1, g2, g3, g4) \<Rightarrow>
          (let cur = js_mul (parseFloat g1) (getMultiplier g2);
               mx = js_mul (parseFloat g3) (getMultiplier g4);
               pct = Math_round (js_mul (js_div cur mx) (Fin 100))
           in Some \<lparr>current = cur, maximum = mx, percentage = pct,
                    growthMultiplier = growth approx cur mx\<rparr>))"

text \<open>
  What \<open>updatePopulationDisplay\<close> computes from the text content of the population
  element: \<open>parsePopulationValues(baseText)\<close>.
\<close>

definition display_values ::
  "(real \<Rightarrow> real \<Rightarrow> jsnum) \<Rightarrow> string \<Rightarrow> PopulationValues option" where
  "display_values approx textContent = parsePopulationValues approx (baseText textContent)"

section \<open>The session recorder\<close>

datatype GAME_STATES = NOT_ACTIVE | RECORDING | DONE_RECORDING

text \<open>The module-level variables of the recorder, as one state.\<close>

record recorder =
  gameState :: GAME_STATES
  gameStart :: int
  recording :: "jsnum list"
  lastRecorded :: int
  lastStorageSave :: int
  currentGameId :: "string option"

text \<open>The state when the script is loaded at time \<open>t0\<close>.\<close>

definition initial :: "int \<Rightarrow> recorder" where
  "initial t0 =
     \<lparr>gameState = NOT_ACTIVE, gameStart = t0, recording = [], lastRecorded = 0,
      lastStorageSave = 0, currentGameId = None\<rparr>"

text \<open>
  What a tick does that can be seen from outside: a call of \<open>chrome.storage.local.set\<close>
  with the key, the recording and the time stamp it is given, and the line
  \<open>console.log('recording', population)\<close> that follows each \<open>recording.push\<close>.  The
  argument of \<open>set\<close> is the content of the array at the time of the call.  A write that
  the store rejects is caught and logged by the program; the state does not depend on it.
\<close>

datatype effect = StorageSet string "jsnum list" int | LogRecording jsnum

text \<open>A value of type \<open>string | null\<close> in a condition: \<open>null\<close> and \<open>""\<close> are false.\<close>

definition truthy :: "string option \<Rightarrow> bool" where
  "truthy g = (case g of None \<Rightarrow> False | Some x \<Rightarrow> x \<noteq> [])"

definition saveRecordingToStorage :: "int \<Rightarrow> recorder \<Rightarrow> effect list" where
  "saveRecordingToStorage now s =
     (if \<not> truthy (currentGameId s) \<or> length (recording s) = 0 then []
      else [StorageSet (the (currentGameId s)) (recording s) now])"

text \<open>
  \<open>updateRecording\<close>, in the four parts of its body.  \<open>gameId\<close> is what \<open>getGameId()\<close>
  returns at the start of the call and \<open>now\<close> what \<open>Date.now()\<close> returns during it: the
  call runs to completion without yielding, and all its readings of the clock are taken
  to be the same.
\<close>

definition invalid_tick :: "int \<Rightarrow> recorder \<Rightarrow> effect list \<times> recorder" where
  "invalid_tick now s =
     ((if gameState s \<noteq> NOT_ACTIVE
       then (if truthy (currentGameId s) \<and> length (recording s) > 0
             then saveRecordingToStorage now s else [])
       else []),
      s\<lparr>gameState := NOT_ACTIVE, gameStart := now, recording := [], lastRecorded := 0,
        lastStorageSave := 0, currentGameId := None\<rparr>)"

definition new_game :: "string option \<Rightarrow> int \<Rightarrow> recorder \<Rightarrow> effect list \<times> recorder" where
  "new_game gameId now s =
     (if gameId \<noteq> currentGameId s
      then ((if truthy (currentGameId s) \<and> length (recording s) > 0
             then saveRecordingToStorage now s else []),
            s\<lparr>currentGameId := gameId, gameStart := now, recording := [], lastRecorded := 0,
              lastStorageSave := 0, gameState := RECORDING\<rparr>)
      else ([], s))"

definition record_sample :: "jsnum \<Rightarrow> int \<Rightarrow> recorder \<Rightarrow> effect list \<times> recorder" where
  "record_sample population now s =
     (if now - lastRecorded s > 1000
      then ([LogRecording population],
            s\<lparr>recording := recording s @ [population], lastRecorded := now\<rparr>)
      else ([], s))"

definition periodic_save :: "int \<Rightarrow> recorder \<Rightarrow> effect list \<times> recorder" where
  "periodic_save now s =
     (if now - lastStorageSave s > 5000
      then (saveRecordingToStorage now s, s\<lparr>lastStorageSave := now\<rparr>)
      else ([], s))"

definition updateRecording ::
  "bool \<Rightarrow> jsnum \<Rightarrow> string option \<Rightarrow> int \<Rightarrow> recorder \<Rightarrow> effect list \<times> recorder" where
  "updateRecording valid population gameId now s =
     (if \<not> valid then invalid_tick now s
      else
        (let (e1, s1) = new_game gameId now s;
             (e2, s2) = record_sample population now s1;
             (e3, s3) = periodic_save now s2
         in (e1 @ e2 @ e3, s3)))"

text \<open>A sequence of ticks, each with the arguments of its call and its two readings.\<close>

record tick =
  tick_valid :: bool
  tick_population :: jsnum
  tick_gameId :: "string option"
  tick_now :: int

fun run :: "tick list \<Rightarrow> recorder \<Rightarrow> effect list \<times> recorder" where
  "run [] s = ([], s)"
| "run (t # ts) s =
     (let (e, s') = updateRecording (tick_valid t) (tick_population t) (tick_gameId t) (tick_now t) s;
          (es, s'') = run ts s'
      in (e @ es, s''))"

section \<open>The export\<close>

text \<open>
  The listener of \<open>chrome.action.onClicked\<close>.  \<open>result\<close> is what
  \<open>chrome.storage.local.get(null)\<close> returns: the keys of the store with their values, in
  the order in which \<open>for ... in\<close> goes through them.  A value is \<open>Falsy\<close> when
  \<open>result[gameId]\<close> is false in a condition, and otherwise an object with its \<open>recording\<close>
  (\<open>None\<close> when it has none) and its \<open>timestamp\<close>.  The conversion of a number to a string,
  which \<open>join\<close> applies to each sample, and \<open>encodeURIComponent\<close> are the runtime's and are
  parameters here.  The file name of the download, which holds the time of the click, is
  left out.
\<close>

datatype stored = Falsy | Entry "jsnum list option" int

type_synonym storage = "(string \<times> stored) list"

text \<open>
  \<open>result[gameId] && result[gameId].recording && result[gameId].recording.length > 0\<close>
\<close>

fun has_recording :: "stored \<Rightarrow> bool" where
  "has_recording Falsy = False"
| "has_recording (Entry None ts) = False"
| "has_recording (Entry (Some xs) ts) = (length xs > 0)"

text \<open>\<open>Array.prototype.join\<close> on the strings of the elements.\<close>

fun join :: "string \<Rightarrow> string list \<Rightarrow> string" where
  "join sep [] = []"
| "join sep [x] = x"
| "join sep (x # y # ys) = x @ sep @ join sep (y # ys)"

fun recording_of :: "stored \<Rightarrow> jsnum list" where
  "recording_of (Entry (Some xs) ts) = xs"
| "recording_of _ = []"

definition csv_row :: "(jsnum \<Rightarrow> string) \<Rightarrow> string \<Rightarrow> stored \<Rightarrow> string" where
  "csv_row toString gameId v =
     gameId @ '','' @ join '','' (map toString (recording_of v)) @ [CHR 0x0A]"

text \<open>The loop over the keys, which appends to \<open>csvContent\<close>.\<close>

fun csv_loop :: "(jsnum \<Rightarrow> string) \<Rightarrow> storage \<Rightarrow> string \<Rightarrow> string" where
  "csv_loop toString [] csvContent = csvContent"
| "csv_loop toString ((gameId, v) # rest) csvContent =
     csv_loop toString rest
       (if has_recording v then csvContent @ csv_row toString gameId v else csvContent)"

datatype export_effect = ConsoleLog string | Download string

definition onClicked ::
  "(jsnum \<Rightarrow> string) \<Rightarrow> (string \<Rightarrow> string) \<Rightarrow> storage \<Rightarrow> export_effect list" where
  "onClicked toString encodeURIComponent result =
     (if length result = 0 then [ConsoleLog ''No recording data found in storage'']
      else
        (let csvContent = csv_loop toString result (''game_id,population_values'' @ [CHR 0x0A]);
             dataUrl = ''data:text/csv;charset=utf-8,'' @ encodeURIComponent csvContent
         in [Download dataUrl]))"

section \<open>The shape of a population text\<close>

text \<open>
  These definitions follow the description of the format in the specification, not the
  code.  The shape \<open><number>[<unit>]? / <number>[<unit>]?\<close>: a number is an unsigned
  decimal, a non-empty run of digits with an optional fraction of a dot and a non-empty
  run of digits; a unit is one optional letter among \<open>k\<close>, \<open>m\<close>, \<open>b\<close> in either case;
  white space may stand around the slash and before each unit.
\<close>

definition fraction_shape :: "string \<Rightarrow> bool" where
  "fraction_shape f = (f = [] \<or> (\<exists>e. f = CHR ''.'' # e \<and> e \<noteq> [] \<and> list_all is_digit e))"

definition number_shape :: "string \<Rightarrow> bool" where
  "number_shape n = (\<exists>d f. n = d @ f \<and> d \<noteq> [] \<and> list_all is_digit d \<and> fraction_shape f)"

definition unit_shape :: "string \<Rightarrow> bool" where
  "unit_shape u = (u = [] \<or> (\<exists>c. u = [c] \<and> is_unit c))"

definition population_shape :: "string \<Rightarrow> bool" where
  "population_shape m =
     (\<exists>n1 w1 u1 w2 w3 n2 w4 u2.
        m = n1 @ w1 @ u1 @ w2 @ ''/'' @ w3 @ n2 @ w4 @ u2 \<and>
        number_shape n1 \<and> list_all is_space w1 \<and> unit_shape u1 \<and> list_all is_space w2 \<and>
        list_all is_space w3 \<and> number_shape n2 \<and> list_all is_space w4 \<and> unit_shape u2)"

text \<open>
  The multiplier of a unit: \<open>k\<close> is a thousand, \<open>m\<close> a million, \<open>b\<close> a thousand million, in
  either case; no unit is 1.
\<close>

definition unit_multiplier :: "string \<Rightarrow> real" where
  "unit_multiplier u =
     (if u = ''k'' \<or> u = ''K'' then 1000
      else if u = ''m'' \<or> u = ''M'' then 1000000
      else if u = ''b'' \<or> u = ''B'' then 1000000000
      else 1)"

text \<open>The value of an unsigned decimal: the digits before the dot and those after it.\<close>

definition decimal_value :: "string \<Rightarrow> real" where
  "decimal_value n =
     (let d = takeWhile (\<lambda>c. c \<noteq> CHR ''.'') n; e = drop (Suc (length d)) n
      in real (digits_value d) + real (digits_value e) / 10 ^ length e)"

text \<open>
  A trailing annotation in parentheses: optional white space, an opening parenthesis,
  characters other than the closing parenthesis, and the closing parenthesis at the very
  end.  Stripping it removes the longest such end of the text, if there is one.
\<close>

definition is_annotation :: "string \<Rightarrow> bool" where
  "is_annotation a =
     (case dropWhile is_space a of
        [] \<Rightarrow> False
      | c # rest \<Rightarrow> c = CHR ''('' \<and> rest \<noteq> [] \<and> last rest = CHR '')'' \<and>
          CHR '')'' \<notin> set (butlast rest))"

fun strip_annotation :: "string \<Rightarrow> string" where
  "strip_annotation [] = []"
| "strip_annotation (c # cs) = (if is_annotation (c # cs) then [] else c # strip_annotation cs)"

section \<open>Examples\<close>

text \<open>
  An approximation of the power as good as can be: the binary64 value nearest to the
  real power.
\<close>

definition nearest_power :: "real \<Rightarrow> real \<Rightarrow> jsnum" where
  "nearest_power a y = (if 0 < a then round64 (a powr y) else round64 (a powi \<lfloor>y\<rfloor>))"

text \<open>
  A text content of two lines, the second with an annotation: the first regular expression
  of \<open>updatePopulationDisplay\<close> does not match it, as \<open>.\<close> matches no line feed.
\<close>

definition two_lines :: string where
  "two_lines = ''a'' @ [CHR 0x0A] @ ''b (5/10)''"

text \<open>A reading of \<open>Date.now()\<close>: milliseconds since the epoch.\<close>

definition T0 :: int where "T0 = 1700000000000"

text \<open>A tick from its four components.\<close>

definition tk :: "bool \<Rightarrow> jsnum \<Rightarrow> string option \<Rightarrow> int \<Rightarrow> tick" where
  "tk v p g t = \<lparr>tick_valid = v, tick_population = p, tick_gameId = g, tick_now = t\<rparr>"

text \<open>The recorder after the first valid tick of game \<open>A\<close>.\<close>

definition session_A :: recorder where
  "session_A = snd (updateRecording True (Fin 5) (Some ''A'') T0 (initial T0))"

text \<open>The recorder after game \<open>A\<close> was left for a page without a game id.\<close>

definition recording_no_id :: recorder where
  "recording_no_id =
     snd (run [tk True (Fin 1) (Some ''A'') T0, tk True (Fin 2) None (T0 + 100)] (initial T0))"

text \<open>
  A conversion of numbers to strings that agrees with the runtime's on the integers from
  0 to 9, which is all the examples need.
\<close>

definition digit_string :: "jsnum \<Rightarrow> string" where
  "digit_string x =
     (case x of
        Fin r \<Rightarrow> (if 0 \<le> r \<and> r < 10 then [''0123456789'' ! nat \<lfloor>r\<rfloor>] else ''?'')
      | _ \<Rightarrow> ''NaN'')"

text \<open>A store with one recording, an empty one, an entry without one and a null.\<close>

definition sink_AB :: storage where
  "sink_AB = [(''A'', Entry (Some [Fin 1, Fin 2, Fin 3]) 0), (''B'', Entry (Some []) 0),
              (''C'', Entry None 0), (''D'', Falsy)]"

section \<open>Facts about numbers\<close>

text \<open>
  Rounding keeps the sign, leaves the natural numbers below \<open>2 ^ 53\<close> as they are, and
  never gives \<open>NaN\<close>.
\<close>

lemma round_half_even_nonneg: "0 \<le> q \<Longrightarrow> 0 \<le> round_half_even q"
  by (auto simp: round_half_even_def Let_def)

lemma round_half_even_of_int: "round_half_even (of_int k) = k"
  by (simp add: round_half_even_def)

lemma round64_nonneg: "0 \<le> x \<Longrightarrow> nonneg_num (round64 x)"
proof -
  assume x: "0 \<le> x"
  have "0 \<le> round_half_even (x / 2 powi e)" for e
    using x by (intro round_half_even_nonneg) simp
  then have "0 \<le> real_of_int (round_half_even (x / 2 powi e)) * 2 powi e" for e
    by simp
  then show ?thesis
    using x by (auto simp: round64_def Let_def)
qed


lemma ilog2_nat:
  assumes "0 < n"
  shows "ilog2 (real n) = int (floorlog 2 n) - 1"
  using assms by (simp add: ilog2_def)

lemma round64_nat_exact:
  assumes "n < 2 ^ 53"
  shows "round64 (real n) = Fin (real n)"
proof (cases "n = 0")
  case True
  then show ?thesis by (simp add: round64_def)
next
  case False
  then have n: "0 < n" by simp
  define L where "L = floorlog 2 n"
  from floorlog_bounds [of n 2] n have b: "2 ^ (L - 1) \<le> n" "n < 2 ^ L"
    by (simp_all add: L_def)
  from n have L0: "0 < L" by (auto simp: L_def floorlog_eq_zero_iff intro: Nat.gr0I)
  from assms have "L \<le> 53" unfolding L_def by (simp add: floorlog_le_iff)
  define k where "k = 53 - L"
  have e: "max (ilog2 \<bar>real n\<bar> - 52) (- 1074) = - int k"
    using L0 \<open>L \<le> 53\<close> n by (simp add: ilog2_nat L_def k_def)
  have q: "real n / 2 powi (- int k) = of_int (int n * 2 ^ k)"
    by (simp add: power_int_minus field_simps)
  have y: "real_of_int (round_half_even (real n / 2 powi (- int k))) * 2 powi (- int k) = real n"
    unfolding q round_half_even_of_int by (simp add: power_int_minus field_simps)
  have "real n < 2 ^ 53" using assms
    by (metis of_nat_less_iff of_nat_numeral of_nat_power)
  also have "\<dots> \<le> (2::real) ^ 1024" by simp
  finally have ov: "\<not> 2 ^ 1024 \<le> \<bar>real n\<bar>" by simp
  show ?thesis
    using n ov unfolding round64_def Let_def e y by simp
qed

lemma round64_not_NaN: "round64 x \<noteq> NaN"
  by (simp add: round64_def Let_def)

text \<open>
  Rounding a given number is a computation: these are the equations that evaluate it, and
  the values of the two literals of the growth formula.
\<close>

lemmas round64_eval = round64_def ilog2_def round_half_even_def Let_def compute_floorlog







lemma js_mul_nonneg_pos: "nonneg_num x \<Longrightarrow> 0 < k \<Longrightarrow> nonneg_num (js_mul x (Fin k))"
  by (cases x) (simp_all add: round64_nonneg inf_of_sign_def)




section \<open>Facts about the regular expression\<close>

lemma star_iff: "(t, r) \<in> set (star P s) \<longleftrightarrow> s = t @ r \<and> list_all P t"
proof (induction s arbitrary: t)
  case Nil
  show ?case by auto
next
  case (Cons c cs)
  show ?case
  proof (cases t)
    case Nil
    then show ?thesis by auto
  next
    case (Cons a u)
    then show ?thesis using Cons.IH [of u] by auto
  qed
qed

lemma plus1_iff: "(t, r) \<in> set (plus1 P s) \<longleftrightarrow> s = t @ r \<and> t \<noteq> [] \<and> list_all P t"
  by (auto simp: plus1_def star_iff)

lemma lit_iff: "(t, r) \<in> set (lit a s) \<longleftrightarrow> t = [a] \<and> s = a # r"
  by (cases s) auto

lemma in_set_seq:
  "(x, r) \<in> set [(h a b, r'). (a, r0) \<leftarrow> p s, (b, r') \<leftarrow> q r0] \<longleftrightarrow>
     (\<exists>a r0 b. (a, r0) \<in> set (p s) \<and> (b, r) \<in> set (q r0) \<and> x = h a b)"
  by (auto simp: image_iff Bex_def)

lemma in_set_bind:
  "y \<in> set (concat (map (\<lambda>(a, r0). F a r0) xs)) \<longleftrightarrow>
     (\<exists>a r0. (a, r0) \<in> set xs \<and> y \<in> set (F a r0))"
  by (auto simp: Bex_def)

lemma in_set_map_pair:
  "y \<in> set (map (\<lambda>(a, r0). h a r0) xs) \<longleftrightarrow> (\<exists>a r0. (a, r0) \<in> set xs \<and> y = h a r0)"
  by (auto simp: image_iff Bex_def)

lemma opt_fraction_iff: "(f, r) \<in> set (opt_fraction s) \<longleftrightarrow> s = f @ r \<and> fraction_shape f"
proof -
  have "(f, r) \<in> set (opt_fraction s) \<longleftrightarrow>
          (\<exists>e. e \<noteq> [] \<and> list_all is_digit e \<and> f = CHR ''.'' # e \<and> s = f @ r) \<or> (f = [] \<and> r = s)"
    unfolding opt_fraction_def set_append Un_iff in_set_seq lit_iff plus1_iff by auto
  also have "\<dots> \<longleftrightarrow> s = f @ r \<and> fraction_shape f"
    unfolding fraction_shape_def by auto
  finally show ?thesis .
qed

lemma number_iff: "(n, r) \<in> set (number s) \<longleftrightarrow> s = n @ r \<and> number_shape n"
proof
  assume "(n, r) \<in> set (number s)"
  then obtain d r0 f where d: "(d, r0) \<in> set (plus1 is_digit s)"
    and f: "(f, r) \<in> set (opt_fraction r0)" and n: "n = d @ f"
    unfolding number_def in_set_seq by blast
  from d f n show "s = n @ r \<and> number_shape n"
    unfolding plus1_iff opt_fraction_iff number_shape_def by auto
next
  assume "s = n @ r \<and> number_shape n"
  then obtain d f where "s = d @ (f @ r)" "n = d @ f" "d \<noteq> []" "list_all is_digit d"
    "fraction_shape f"
    unfolding number_shape_def by auto
  then have "(d, f @ r) \<in> set (plus1 is_digit s)" "(f, r) \<in> set (opt_fraction (f @ r))"
    unfolding plus1_iff opt_fraction_iff by auto
  with \<open>n = d @ f\<close> show "(n, r) \<in> set (number s)"
    unfolding number_def in_set_seq by blast
qed

lemma opt_unit_iff: "(u, r) \<in> set (opt_unit s) \<longleftrightarrow> s = u @ r \<and> unit_shape u"
  by (cases s) (auto simp: unit_shape_def)

lemma population_at_iff:
  "((g1, g2, g3, g4), r) \<in> set (population_at s) \<longleftrightarrow>
     (\<exists>w1 w2 w3 w4.
        s = g1 @ w1 @ g2 @ w2 @ ''/'' @ w3 @ g3 @ w4 @ g4 @ r \<and>
        number_shape g1 \<and> list_all is_space w1 \<and> unit_shape g2 \<and> list_all is_space w2 \<and>
        list_all is_space w3 \<and> number_shape g3 \<and> list_all is_space w4 \<and> unit_shape g4)"
  unfolding population_at_def in_set_bind in_set_map_pair number_iff star_iff opt_unit_iff lit_iff
  apply (rule iffI)
   apply clarsimp
   apply blast
  apply clarsimp
  apply (intro exI conjI; (rule refl | assumption))
  done

lemma population_at_shape:
  "population_at t \<noteq> [] \<longleftrightarrow> (\<exists>m r. t = m @ r \<and> population_shape m)"
proof
  assume "population_at t \<noteq> []"
  then have "hd (population_at t) \<in> set (population_at t)" by simp
  then obtain x where x: "x \<in> set (population_at t)" ..
  obtain g r where gr: "x = (g, r)" by (cases x)
  obtain g1 g2 g3 g4 where "g = (g1, g2, g3, g4)" by (rule prod_cases4)
  with x gr have "((g1, g2, g3, g4), r) \<in> set (population_at t)" by simp
  then have "\<exists>w1 w2 w3 w4.
        t = g1 @ w1 @ g2 @ w2 @ ''/'' @ w3 @ g3 @ w4 @ g4 @ r \<and>
        number_shape g1 \<and> list_all is_space w1 \<and> unit_shape g2 \<and> list_all is_space w2 \<and>
        list_all is_space w3 \<and> number_shape g3 \<and> list_all is_space w4 \<and> unit_shape g4"
    unfolding population_at_iff .
  then obtain w1 w2 w3 w4 where t: "t = g1 @ w1 @ g2 @ w2 @ ''/'' @ w3 @ g3 @ w4 @ g4 @ r"
    and sh: "number_shape g1" "list_all is_space w1" "unit_shape g2" "list_all is_space w2"
      "list_all is_space w3" "number_shape g3" "list_all is_space w4" "unit_shape g4"
    by (elim exE conjE)
  have "population_shape (g1 @ w1 @ g2 @ w2 @ ''/'' @ w3 @ g3 @ w4 @ g4)"
    unfolding population_shape_def
    by (intro exI conjI, rule refl) (rule sh)+
  moreover from t have "t = (g1 @ w1 @ g2 @ w2 @ ''/'' @ w3 @ g3 @ w4 @ g4) @ r" by simp
  ultimately show "\<exists>m r. t = m @ r \<and> population_shape m" by (intro exI conjI)
next
  assume "\<exists>m r. t = m @ r \<and> population_shape m"
  then obtain m r where t: "t = m @ r" and m: "population_shape m" by (elim exE conjE)
  from m obtain n1 w1 u1 w2 w3 n2 w4 u2 where
    m': "m = n1 @ w1 @ u1 @ w2 @ ''/'' @ w3 @ n2 @ w4 @ u2"
    and sh: "number_shape n1" "list_all is_space w1" "unit_shape u1" "list_all is_space w2"
      "list_all is_space w3" "number_shape n2" "list_all is_space w4" "unit_shape u2"
    unfolding population_shape_def by (elim exE conjE)
  from t m' have "t = n1 @ w1 @ u1 @ w2 @ ''/'' @ w3 @ n2 @ w4 @ u2 @ r" by simp
  then have "((n1, u1, n2, u2), r) \<in> set (population_at t)"
    unfolding population_at_iff
    by (intro exI conjI) (assumption, (rule sh)+)
  then show "population_at t \<noteq> []" by (cases "population_at t") simp_all
qed

lemma population_match_None:
  "population_match s = None \<longleftrightarrow> (\<forall>pre t. s = pre @ t \<longrightarrow> population_at t = [])"
proof (induction s)
  case Nil
  show ?case by (auto split: list.splits)
next
  case (Cons c cs)
  have "(\<forall>pre t. c # cs = pre @ t \<longrightarrow> population_at t = []) \<longleftrightarrow>
          population_at (c # cs) = [] \<and> (\<forall>pre t. cs = pre @ t \<longrightarrow> population_at t = [])"
    by (auto simp: append_eq_Cons_conv Cons_eq_append_conv)
  with Cons.IH show ?case by (auto split: list.splits)
qed

lemma population_match_Some:
  "population_match s = Some g \<Longrightarrow> \<exists>pre t r. s = pre @ t \<and> (g, r) \<in> set (population_at t)"
proof (induction s)
  case Nil
  then show ?case by (auto split: list.splits)
next
  case (Cons c cs)
  show ?case
  proof (cases "population_at (c # cs)")
    case Nil
    with Cons.prems have "population_match cs = Some g" by simp
    from Cons.IH [OF this] obtain pre t r where "cs = pre @ t" "(g, r) \<in> set (population_at t)"
      by blast
    then have "c # cs = (c # pre) @ t \<and> (g, r) \<in> set (population_at t)" by simp
    then show ?thesis by blast
  next
    case (Cons x xs)
    with Cons.prems have "c # cs = [] @ (c # cs) \<and> (g, snd x) \<in> set (population_at (c # cs))"
      by (cases x) auto
    then show ?thesis by blast
  qed
qed

lemma no_match_iff:
  "population_match s = None \<longleftrightarrow> \<not> (\<exists>pre m post. s = pre @ m @ post \<and> population_shape m)"
proof -
  have "(\<exists>pre t. s = pre @ t \<and> population_at t \<noteq> []) \<longleftrightarrow>
          (\<exists>pre m post. s = pre @ m @ post \<and> population_shape m)"
    unfolding population_at_shape by blast
  then show ?thesis unfolding population_match_None by blast
qed

lemma match_groups:
  assumes "population_match s = Some (g1, g2, g3, g4)"
  shows "number_shape g1 \<and> unit_shape g2 \<and> number_shape g3 \<and> unit_shape g4"
proof -
  from population_match_Some [OF assms] obtain pre t r where
    "((g1, g2, g3, g4), r) \<in> set (population_at t)" by blast
  then have "\<exists>w1 w2 w3 w4.
        t = g1 @ w1 @ g2 @ w2 @ ''/'' @ w3 @ g3 @ w4 @ g4 @ r \<and>
        number_shape g1 \<and> list_all is_space w1 \<and> unit_shape g2 \<and> list_all is_space w2 \<and>
        list_all is_space w3 \<and> number_shape g3 \<and> list_all is_space w4 \<and> unit_shape g4"
    unfolding population_at_iff .
  then show ?thesis by (elim exE conjE) simp
qed

section \<open>Facts about the base text\<close>

text \<open>
  An annotation is white space, an opening parenthesis, characters other than the closing
  parenthesis, and a closing parenthesis, and the optional group of the first regular
  expression matches up to the end of a string exactly when the string is one.
\<close>

lemma not_space_paren: "\<not> is_space CHR ''(''"
  by (simp add: is_space_def)

lemma is_annotation_iff:
  "is_annotation a \<longleftrightarrow>
     (\<exists>w b. a = w @ ''('' @ b @ '')'' \<and> list_all is_space w \<and> CHR '')'' \<notin> set b)"
proof
  assume a: "is_annotation a"
  define w where "w = takeWhile is_space a"
  define r where "r = dropWhile is_space a"
  have aw: "a = w @ r" by (simp add: w_def r_def)
  from a obtain rest where r: "r = CHR ''('' # rest" "rest \<noteq> []" "last rest = CHR '')''"
    "CHR '')'' \<notin> set (butlast rest)"
    unfolding is_annotation_def r_def by (auto split: list.splits)
  from r(2,3) have "rest = butlast rest @ '')''" by (metis append_butlast_last_id)
  with aw r(1) have "a = w @ ''('' @ butlast rest @ '')''" by simp
  moreover have "list_all is_space w" by (simp add: w_def list_all_iff) (meson set_takeWhileD)
  ultimately show "\<exists>w b. a = w @ ''('' @ b @ '')'' \<and> list_all is_space w \<and> CHR '')'' \<notin> set b"
    using r(4) by blast
next
  assume "\<exists>w b. a = w @ ''('' @ b @ '')'' \<and> list_all is_space w \<and> CHR '')'' \<notin> set b"
  then obtain w b where a: "a = w @ CHR ''('' # b @ '')''" and w: "list_all is_space w"
    and b: "CHR '')'' \<notin> set b"
    by auto
  from w have "dropWhile is_space a = CHR ''('' # b @ '')''"
    unfolding a using not_space_paren by (simp add: list_all_iff dropWhile_append3)
  with b show "is_annotation a" by (simp add: is_annotation_def)
qed

lemma annotation_end_iff: "(\<exists>x. (x, []) \<in> set (annotation s)) \<longleftrightarrow> is_annotation s"
proof
  assume "\<exists>x. (x, []) \<in> set (annotation s)"
  then obtain x where "(x, []) \<in> set (annotation s)" ..
  then obtain w b where "s = w @ CHR ''('' # b @ '')''" "list_all is_space w"
    "list_all (\<lambda>c. c \<noteq> CHR '')'') b"
    unfolding annotation_def in_set_bind in_set_map_pair star_iff lit_iff by auto
  then have "s = w @ ''('' @ b @ '')'' \<and> list_all is_space w \<and> CHR '')'' \<notin> set b"
    by (auto simp: list_all_iff)
  then show "is_annotation s" unfolding is_annotation_iff by blast
next
  assume "is_annotation s"
  then obtain w b where s: "s = w @ CHR ''('' # b @ '')''" and w: "list_all is_space w"
    and b: "CHR '')'' \<notin> set b"
    unfolding is_annotation_iff by auto
  from b have b': "list_all (\<lambda>c. c \<noteq> CHR '')'') b" by (auto simp: list_all_iff)
  have "(w @ ''('' @ b @ '')'', []) \<in> set (annotation s)"
    unfolding annotation_def in_set_bind in_set_map_pair star_iff lit_iff s
    apply (intro exI conjI)
             apply (rule refl)
            apply (rule w)
           apply (rule refl)
          apply (rule refl)
         apply (rule refl)
        apply (rule b')
       apply (rule refl)
      apply (rule refl)
    apply simp
    done
  then show "\<exists>x. (x, []) \<in> set (annotation s)" ..
qed

text \<open>
  The lazy quantifier tries the short prefixes first, so the first match is at the first
  position from which the rest is an annotation or empty, and there is one only if no line
  terminator stands before that position.
\<close>

lemma ends_replicate:
  "[g. (a, r2) \<leftarrow> xs, r2 = []] = replicate (length (filter (\<lambda>(a, r2). r2 = []) xs)) g"
  by (induction xs) auto

lemma ends_count:
  "0 < length (filter (\<lambda>(a, r2). r2 = []) (opt_annotation r1)) \<longleftrightarrow> is_annotation r1 \<or> r1 = []"
proof -
  have "0 < length (filter (\<lambda>(a, r2). r2 = []) (opt_annotation r1)) \<longleftrightarrow>
          (\<exists>a. (a, []) \<in> set (opt_annotation r1))"
    by (auto simp: filter_empty_conv)
  also have "\<dots> \<longleftrightarrow> (\<exists>x. (x, []) \<in> set (annotation r1)) \<or> r1 = []"
    by (auto simp: opt_annotation_def)
  finally show ?thesis unfolding annotation_end_iff by simp
qed

lemma base_text_at_Nil: "base_text_at [] = [[]]"
  by (simp add: base_text_at_def opt_annotation_def annotation_def)

lemma ends_map_Cons:
  "[g1. (g1, r1) \<leftarrow> map (\<lambda>(t, r). (c # t, r)) L, (a, r2) \<leftarrow> opt_annotation r1, r2 = []] =
     map ((#) c) [g1. (g1, r1) \<leftarrow> L, (a, r2) \<leftarrow> opt_annotation r1, r2 = []]"
proof (induction L)
  case Nil
  show ?case by simp
next
  case (Cons p L)
  obtain t r where p: "p = (t, r)" by (cases p)
  have "[g1. (g1, r1) \<leftarrow> map (\<lambda>(t, r). (c # t, r)) (p # L), (a, r2) \<leftarrow> opt_annotation r1, r2 = []] =
      [c # t. (a, r2) \<leftarrow> opt_annotation r, r2 = []] @
      [g1. (g1, r1) \<leftarrow> map (\<lambda>(t, r). (c # t, r)) L, (a, r2) \<leftarrow> opt_annotation r1, r2 = []]"
    by (simp add: p)
  also have "[c # t. (a, r2) \<leftarrow> opt_annotation r, r2 = []] =
      map ((#) c) [t. (a, r2) \<leftarrow> opt_annotation r, r2 = []]"
    unfolding ends_replicate by simp
  finally show ?case unfolding Cons.IH by (simp add: p)
qed

lemma base_text_at_Cons:
  "base_text_at (c # cs) =
     replicate (length (filter (\<lambda>(a, r2). r2 = []) (opt_annotation (c # cs)))) [] @
     (if is_dot_char c then map ((#) c) (base_text_at cs) else [])"
proof -
  have "base_text_at (c # cs) =
      [[]. (a, r2) \<leftarrow> opt_annotation (c # cs), r2 = []] @
      (if is_dot_char c
       then [g1. (g1, r1) \<leftarrow> map (\<lambda>(t, r). (c # t, r)) (star_lazy is_dot_char cs),
                 (a, r2) \<leftarrow> opt_annotation r1, r2 = []]
       else [])"
    by (simp add: base_text_at_def)
  then show ?thesis
    unfolding ends_map_Cons ends_replicate [of "[]"] by (simp add: base_text_at_def)
qed

lemma baseTextMatch_strip:
  "baseTextMatch s =
     (if list_all is_dot_char (strip_annotation s) then Some (strip_annotation s) else None)"
proof (induction s)
  case Nil
  show ?case by (simp add: baseTextMatch_def base_text_at_Nil)
next
  case (Cons c cs)
  define n where "n = length (filter (\<lambda>(a, r2). r2 = []) (opt_annotation (c # cs)))"
  have n: "0 < n \<longleftrightarrow> is_annotation (c # cs)"
    unfolding n_def ends_count by simp
  have b: "base_text_at (c # cs) =
      replicate n [] @ (if is_dot_char c then map ((#) c) (base_text_at cs) else [])"
    unfolding n_def by (rule base_text_at_Cons)
  show ?case
  proof (cases "is_annotation (c # cs)")
    case True
    with n obtain m where "n = Suc m" by (cases n) auto
    with True show ?thesis
      by (simp add: baseTextMatch_def b)
  next
    case False
    with n have "n = 0" by simp
    then have "baseTextMatch (c # cs) =
        (if is_dot_char c then map_option ((#) c) (baseTextMatch cs) else None)"
      unfolding baseTextMatch_def b
      by (simp split: list.splits)
    with False Cons.IH show ?thesis by simp
  qed
qed

lemma baseText_strip:
  "baseText s =
     (if list_all is_dot_char (strip_annotation s) then trim (strip_annotation s) else s)"
  by (simp add: baseText_def baseTextMatch_strip)

text \<open>
  What \<open>strip_annotation\<close> takes off is an annotation or nothing, and no annotation at
  the end of the string is longer.
\<close>

lemma strip_annotation_decomp:
  "\<exists>a. s = strip_annotation s @ a \<and> (a = [] \<or> is_annotation a)"
  by (induction s) auto

lemma strip_annotation_longest:
  "s = g @ a \<Longrightarrow> is_annotation a \<Longrightarrow> length (strip_annotation s) \<le> length g"
proof (induction s arbitrary: g)
  case Nil
  then show ?case by simp
next
  case (Cons c cs)
  show ?case
  proof (cases "is_annotation (c # cs)")
    case True
    then show ?thesis by simp
  next
    case False
    with Cons.prems have "g \<noteq> []" by auto
    then obtain g' where g: "g = c # g'" "cs = g' @ a"
      using Cons.prems(1) by (cases g) auto
    from Cons.IH [OF g(2) Cons.prems(2)] False g(1) show ?thesis by simp
  qed
qed

section \<open>Facts about the value parser\<close>

text \<open>
  On the groups of a match \<open>parseFloat\<close> and \<open>getMultiplier\<close> are the binary64 value of
  the decimal and the multiplier of the unit.
\<close>

lemma takeWhile_digits:
  assumes "list_all is_digit d" "fraction_shape f"
  shows "takeWhile is_digit (d @ f) = d" "dropWhile is_digit (d @ f) = f"
proof -
  from assms(2) have f: "f = [] \<or> (\<exists>e. f = CHR ''.'' # e)" by (auto simp: fraction_shape_def)
  have nd: "\<not> is_digit CHR ''.''" by (simp add: is_digit_def)
  from assms(1) have d: "\<forall>x\<in>set d. is_digit x" by (simp add: list_all_iff)
  from f d nd show "takeWhile is_digit (d @ f) = d" by (auto simp: takeWhile_tail)
  from f d nd show "dropWhile is_digit (d @ f) = f" by (auto simp: dropWhile_append2 dropWhile_append3)
qed

lemma takeWhile_nodot:
  assumes "list_all is_digit d"
  shows "takeWhile (\<lambda>c. c \<noteq> CHR ''.'') d = d"
proof -
  have "\<And>x. is_digit x \<Longrightarrow> x \<noteq> CHR ''.''" by (auto simp: is_digit_def)
  with assms show ?thesis by (induction d) auto
qed

lemma decimal_value_digits:
  assumes "list_all is_digit d"
  shows "decimal_value d = real (digits_value d)"
  unfolding decimal_value_def Let_def takeWhile_nodot [OF assms]
  by (simp add: digits_value_def)

lemma parseFloat_number:
  assumes "number_shape n"
  shows "parseFloat n = round64 (decimal_value n) \<and> 0 \<le> decimal_value n"
proof -
  from assms obtain d f where n: "n = d @ f" and d: "d \<noteq> []" "list_all is_digit d"
    and f: "fraction_shape f"
    unfolding number_shape_def by (elim exE conjE)
  have tw: "takeWhile is_digit n = d" "dropWhile is_digit n = f"
    unfolding n by (rule takeWhile_digits [OF d(2) f])+
  have pf: "parseFloat n = round64 (real (digits_value d) + fraction_value f)"
    unfolding parseFloat_def tw Let_def using d(1) by simp
  from f consider "f = []" | e where "f = CHR ''.'' # e" "e \<noteq> []" "list_all is_digit e"
    unfolding fraction_shape_def by blast
  then have "decimal_value n = real (digits_value d) + fraction_value f"
  proof cases
    case 1
    then show ?thesis
      unfolding n decimal_value_def fraction_value_def Let_def
      by (simp add: takeWhile_nodot [OF d(2)] digits_value_def)
  next
    case 2
    have e: "takeWhile is_digit e = e" using 2(3) by (simp add: list_all_iff)
    have "takeWhile (\<lambda>c. c \<noteq> CHR ''.'') (d @ CHR ''.'' # e) = d"
      using takeWhile_nodot [OF d(2)] by (simp add: takeWhile_tail)
    then show ?thesis
      unfolding n 2(1) decimal_value_def fraction_value_def Let_def
      by (simp add: e)
  qed
  moreover have "0 \<le> fraction_value f"
    unfolding fraction_value_def by (simp add: Let_def split: list.splits)
  ultimately show ?thesis using pf by simp
qed

lemma getMultiplier_unit:
  assumes "unit_shape u"
  shows "getMultiplier u = Fin (unit_multiplier u) \<and> 0 < unit_multiplier u"
proof -
  from assms consider "u = []" | "u = ''k''" | "u = ''K''" | "u = ''m''" | "u = ''M''"
    | "u = ''b''" | "u = ''B''"
    unfolding unit_shape_def is_unit_def by auto
  then show ?thesis
    by cases (simp_all add: getMultiplier_def toUpperCase_def unit_multiplier_def)
qed

lemma unit_multiplier_nat: "\<exists>U. unit_multiplier u = real U"
proof -
  have "unit_multiplier u = real 1000 \<or> unit_multiplier u = real 1000000 \<or>
      unit_multiplier u = real 1000000000 \<or> unit_multiplier u = real 1"
    by (simp add: unit_multiplier_def)
  then show ?thesis by blast
qed

lemma product_exact:
  assumes "list_all is_digit g" "decimal_value g * unit_multiplier u < 2 ^ 53" "0 < unit_multiplier u"
    "getMultiplier u = Fin (unit_multiplier u)"
  shows "js_mul (round64 (decimal_value g)) (getMultiplier u) = Fin (decimal_value g * unit_multiplier u)"
proof -
  obtain U where U: "unit_multiplier u = real U" using unit_multiplier_nat by blast
  define n where "n = digits_value g"
  have dv: "decimal_value g = real n" unfolding n_def by (rule decimal_value_digits [OF assms(1)])
  from assms(3) U have U1: "1 \<le> U" by simp
  from assms(2) have nu: "n * U < 2 ^ 53"
    unfolding dv U by (metis of_nat_less_iff of_nat_mult of_nat_numeral of_nat_power)
  have "n \<le> n * U" using U1 by simp
  from this nu have "n < 2 ^ 53" by (rule le_less_trans)
  then have "round64 (real n) = Fin (real n)" by (rule round64_nat_exact)
  moreover have "round64 (real (n * U)) = Fin (real (n * U))" using nu by (rule round64_nat_exact)
  ultimately show ?thesis unfolding assms(4) dv U by simp
qed

text \<open>The result of \<open>parsePopulationValues\<close>, field by field.\<close>

lemma parse_None_iff:
  "parsePopulationValues approx text = None \<longleftrightarrow> population_match text = None"
  by (simp add: parsePopulationValues_def Let_def split: option.splits prod.splits)

lemma parse_Some:
  assumes "parsePopulationValues approx text = Some r"
  shows "\<exists>g1 g2 g3 g4.
           population_match text = Some (g1, g2, g3, g4) \<and>
           number_shape g1 \<and> unit_shape g2 \<and> number_shape g3 \<and> unit_shape g4 \<and>
           current r = js_mul (round64 (decimal_value g1)) (Fin (unit_multiplier g2)) \<and>
           maximum r = js_mul (round64 (decimal_value g3)) (Fin (unit_multiplier g4)) \<and>
           percentage r = Math_round (js_mul (js_div (current r) (maximum r)) (Fin 100)) \<and>
           growthMultiplier r = growth approx (current r) (maximum r)"
proof -
  from assms obtain g where g: "population_match text = Some g"
    by (auto simp: parsePopulationValues_def split: option.splits)
  obtain g1 g2 g3 g4 where g4: "g = (g1, g2, g3, g4)" by (rule prod_cases4)
  from match_groups [OF g [unfolded g4]]
  have sh: "number_shape g1" "unit_shape g2" "number_shape g3" "unit_shape g4" by simp_all
  from assms g g4 have r: "r = \<lparr>current = js_mul (parseFloat g1) (getMultiplier g2),
      maximum = js_mul (parseFloat g3) (getMultiplier g4),
      percentage = Math_round (js_mul (js_div (js_mul (parseFloat g1) (getMultiplier g2))
         (js_mul (parseFloat g3) (getMultiplier g4))) (Fin 100)),
      growthMultiplier = growth approx (js_mul (parseFloat g1) (getMultiplier g2))
         (js_mul (parseFloat g3) (getMultiplier g4))\<rparr>"
    by (simp add: parsePopulationValues_def Let_def)
  have "current r = js_mul (round64 (decimal_value g1)) (Fin (unit_multiplier g2))"
    "maximum r = js_mul (round64 (decimal_value g3)) (Fin (unit_multiplier g4))"
    using parseFloat_number [OF sh(1)] parseFloat_number [OF sh(3)]
      getMultiplier_unit [OF sh(2)] getMultiplier_unit [OF sh(4)]
    by (simp_all add: r)
  moreover have "percentage r = Math_round (js_mul (js_div (current r) (maximum r)) (Fin 100))"
    "growthMultiplier r = growth approx (current r) (maximum r)"
    by (simp_all add: r)
  ultimately show ?thesis using g g4 sh by blast
qed

lemma parse_nonneg:
  assumes "parsePopulationValues approx text = Some r"
  shows "nonneg_num (current r) \<and> nonneg_num (maximum r)"
proof -
  from parse_Some [OF assms] obtain g1 g2 g3 g4 where
    sh: "number_shape g1" "unit_shape g2" "number_shape g3" "unit_shape g4"
    and c: "current r = js_mul (round64 (decimal_value g1)) (Fin (unit_multiplier g2))"
    and m: "maximum r = js_mul (round64 (decimal_value g3)) (Fin (unit_multiplier g4))"
    by blast
  from parseFloat_number [OF sh(1)] parseFloat_number [OF sh(3)]
  have "nonneg_num (round64 (decimal_value g1))" "nonneg_num (round64 (decimal_value g3))"
    by (simp_all add: round64_nonneg)
  then show ?thesis
    unfolding c m
    using getMultiplier_unit [OF sh(2)] getMultiplier_unit [OF sh(4)]
    by (simp add: js_mul_nonneg_pos)
qed

lemma percentage_zero_maximum:
  assumes "nonneg_num c"
  shows "Math_round (js_mul (js_div c (Fin 0)) (Fin 100)) = (if c = Fin 0 then NaN else PosInf)"
  using assms by (cases c) (auto simp: inf_of_sign_def)

lemma match_decomp:
  assumes "population_match s = Some (g1, g2, g3, g4)"
  shows "\<exists>pre w1 w2 w3 w4 post.
           s = pre @ g1 @ w1 @ g2 @ w2 @ ''/'' @ w3 @ g3 @ w4 @ g4 @ post \<and>
           list_all is_space w1 \<and> list_all is_space w2 \<and> list_all is_space w3 \<and>
           list_all is_space w4"
proof -
  from population_match_Some [OF assms] obtain pre t r where
    s: "s = pre @ t" and "((g1, g2, g3, g4), r) \<in> set (population_at t)" by blast
  then have "\<exists>w1 w2 w3 w4.
        t = g1 @ w1 @ g2 @ w2 @ ''/'' @ w3 @ g3 @ w4 @ g4 @ r \<and>
        number_shape g1 \<and> list_all is_space w1 \<and> unit_shape g2 \<and> list_all is_space w2 \<and>
        list_all is_space w3 \<and> number_shape g3 \<and> list_all is_space w4 \<and> unit_shape g4"
    unfolding population_at_iff by simp
  then obtain w1 w2 w3 w4 where
    t: "t = g1 @ w1 @ g2 @ w2 @ ''/'' @ w3 @ g3 @ w4 @ g4 @ r"
    and w: "list_all is_space w1" "list_all is_space w2" "list_all is_space w3"
      "list_all is_space w4"
    by (elim exE conjE)
  from s t have "s = pre @ g1 @ w1 @ g2 @ w2 @ ''/'' @ w3 @ g3 @ w4 @ g4 @ r" by simp
  with w show ?thesis by (intro exI conjI)
qed

lemma population_shape_starts_with_digit:
  assumes "population_shape m"
  shows "m \<noteq> [] \<and> is_digit (hd m)"
proof -
  from assms obtain n1 rest where m: "m = n1 @ rest" and n: "number_shape n1"
    unfolding population_shape_def by blast
  from n obtain d f where "n1 = d @ f" "d \<noteq> []" "list_all is_digit d"
    unfolding number_shape_def by blast
  with m show ?thesis by (cases d) auto
qed




subsection \<open>Some texts, evaluated\<close>

text \<open>The matches of the second regular expression and the base texts.\<close>

lemma match_12: "population_match ''12.1K / 12.1K'' = Some (''12.1'', ''K'', ''12.1'', ''K'')"
  by code_simp

lemma match_500: "population_match ''500/1000'' = Some (''500'', [], ''1000'', [])"
  by code_simp

lemma match_zero: "population_match ''5/0'' = Some (''5'', [], ''0'', [])"
  by code_simp

lemma match_inside: "population_match ''x5/10y'' = Some (''5'', [], ''10'', [])"
  by code_simp

lemma match_words: "population_match ''not a number'' = None"
  by code_simp

lemma match_23: "population_match ''23/40'' = Some (''23'', [], ''40'', [])"
  by code_simp

lemma match_201: "population_match ''2.01k / 10k'' = Some (''2.01'', ''k'', ''10'', ''k'')"
  by code_simp


lemma match_broken: "population_match two_lines = Some (''5'', [], ''10'', [])"
  by code_simp

lemma base_annotated: "baseText ''12.1K / 12.1K (+3)'' = ''12.1K / 12.1K''"
  by code_simp

lemma base_inside: "baseText ''x5/10y (+3)'' = ''x5/10y''"
  by code_simp

lemma base_words: "baseText ''not a number'' = ''not a number''"
  by code_simp

lemma strip_inside: "strip_annotation ''x5/10y (+3)'' = ''x5/10y''"
  by code_simp

lemma strip_broken:
  "strip_annotation two_lines = ''a'' @ [CHR 0x0A] @ ''b''"
  by code_simp

lemma base_broken:
  "baseText two_lines = two_lines"
  by code_simp

text \<open>
  The numbers: each literal is read, rounded and multiplied by its unit; then the
  percentages.
\<close>

lemmas numeral_defs = parseFloat_def fraction_value_def digits_value_def digit_value_def
  is_digit_def getMultiplier_def toUpperCase_def decimal_value_def unit_multiplier_def

lemma parse_fields:
  assumes "population_match text = Some (g1, g2, g3, g4)"
  shows "map_option current (parsePopulationValues approx text) =
           Some (js_mul (parseFloat g1) (getMultiplier g2))"
    and "map_option maximum (parsePopulationValues approx text) =
           Some (js_mul (parseFloat g3) (getMultiplier g4))"
    and "map_option percentage (parsePopulationValues approx text) =
           Some (Math_round (js_mul (js_div (js_mul (parseFloat g1) (getMultiplier g2))
              (js_mul (parseFloat g3) (getMultiplier g4))) (Fin 100)))"
    and "map_option growthMultiplier (parsePopulationValues approx text) =
           Some (growth approx (js_mul (parseFloat g1) (getMultiplier g2))
              (js_mul (parseFloat g3) (getMultiplier g4)))"
  unfolding parsePopulationValues_def assms by (simp_all add: Let_def)

lemma literal_12: "parseFloat ''12.1'' = Fin (6811694436397875 / 2 ^ 49)"
proof -
  have "parseFloat ''12.1'' = round64 (12.1)" by (simp add: numeral_defs)
  also have "\<dots> = Fin (6811694436397875 / 2 ^ 49)" by (simp add: round64_eval)
  finally show ?thesis .
qed

lemma value_12: "js_mul (parseFloat ''12.1'') (getMultiplier ''K'') = Fin (12100)"
proof -
  have "getMultiplier ''K'' = Fin 1000" by (simp add: getMultiplier_def toUpperCase_def)
  then show ?thesis unfolding literal_12 by (simp add: round64_eval)
qed

lemma literal_500: "parseFloat ''500'' = Fin (500)"
proof -
  have "parseFloat ''500'' = round64 (500)" by (simp add: numeral_defs)
  also have "\<dots> = Fin (500)" by (simp add: round64_eval)
  finally show ?thesis .
qed

lemma value_500: "js_mul (parseFloat ''500'') (getMultiplier []) = Fin (500)"
proof -
  have "getMultiplier [] = Fin 1" by (simp add: getMultiplier_def toUpperCase_def)
  then show ?thesis unfolding literal_500 by (simp add: round64_eval)
qed

lemma literal_1000: "parseFloat ''1000'' = Fin (1000)"
proof -
  have "parseFloat ''1000'' = round64 (1000)" by (simp add: numeral_defs)
  also have "\<dots> = Fin (1000)" by (simp add: round64_eval)
  finally show ?thesis .
qed

lemma value_1000: "js_mul (parseFloat ''1000'') (getMultiplier []) = Fin (1000)"
proof -
  have "getMultiplier [] = Fin 1" by (simp add: getMultiplier_def toUpperCase_def)
  then show ?thesis unfolding literal_1000 by (simp add: round64_eval)
qed

lemma literal_5: "parseFloat ''5'' = Fin (5)"
proof -
  have "parseFloat ''5'' = round64 (5)" by (simp add: numeral_defs)
  also have "\<dots> = Fin (5)" by (simp add: round64_eval)
  finally show ?thesis .
qed

lemma value_5: "js_mul (parseFloat ''5'') (getMultiplier []) = Fin (5)"
proof -
  have "getMultiplier [] = Fin 1" by (simp add: getMultiplier_def toUpperCase_def)
  then show ?thesis unfolding literal_5 by (simp add: round64_eval)
qed

lemma literal_0: "parseFloat ''0'' = Fin (0)"
proof -
  have "parseFloat ''0'' = round64 (0)" by (simp add: numeral_defs)
  also have "\<dots> = Fin (0)" by (simp add: round64_eval)
  finally show ?thesis .
qed

lemma value_0: "js_mul (parseFloat ''0'') (getMultiplier []) = Fin (0)"
proof -
  have "getMultiplier [] = Fin 1" by (simp add: getMultiplier_def toUpperCase_def)
  then show ?thesis unfolding literal_0 by (simp add: round64_eval)
qed

lemma literal_10: "parseFloat ''10'' = Fin (10)"
proof -
  have "parseFloat ''10'' = round64 (10)" by (simp add: numeral_defs)
  also have "\<dots> = Fin (10)" by (simp add: round64_eval)
  finally show ?thesis .
qed

lemma value_10: "js_mul (parseFloat ''10'') (getMultiplier []) = Fin (10)"
proof -
  have "getMultiplier [] = Fin 1" by (simp add: getMultiplier_def toUpperCase_def)
  then show ?thesis unfolding literal_10 by (simp add: round64_eval)
qed

lemma literal_23: "parseFloat ''23'' = Fin (23)"
proof -
  have "parseFloat ''23'' = round64 (23)" by (simp add: numeral_defs)
  also have "\<dots> = Fin (23)" by (simp add: round64_eval)
  finally show ?thesis .
qed

lemma value_23: "js_mul (parseFloat ''23'') (getMultiplier []) = Fin (23)"
proof -
  have "getMultiplier [] = Fin 1" by (simp add: getMultiplier_def toUpperCase_def)
  then show ?thesis unfolding literal_23 by (simp add: round64_eval)
qed

lemma literal_40: "parseFloat ''40'' = Fin (40)"
proof -
  have "parseFloat ''40'' = round64 (40)" by (simp add: numeral_defs)
  also have "\<dots> = Fin (40)" by (simp add: round64_eval)
  finally show ?thesis .
qed

lemma value_40: "js_mul (parseFloat ''40'') (getMultiplier []) = Fin (40)"
proof -
  have "getMultiplier [] = Fin 1" by (simp add: getMultiplier_def toUpperCase_def)
  then show ?thesis unfolding literal_40 by (simp add: round64_eval)
qed

lemma literal_201: "parseFloat ''2.01'' = Fin (1131529406376837 / 2 ^ 49)"
proof -
  have "parseFloat ''2.01'' = round64 (2.01)" by (simp add: numeral_defs)
  also have "\<dots> = Fin (1131529406376837 / 2 ^ 49)" by (simp add: round64_eval)
  finally show ?thesis .
qed

lemma value_201: "js_mul (parseFloat ''2.01'') (getMultiplier ''k'') = Fin (8840073487319039 / 2 ^ 42)"
proof -
  have "getMultiplier ''k'' = Fin 1000" by (simp add: getMultiplier_def toUpperCase_def)
  then show ?thesis unfolding literal_201 by (simp add: round64_eval)
qed

lemma percent_100: "Math_round (js_mul (js_div (Fin 12100) (Fin 12100)) (Fin 100)) = Fin 100"
  by (simp add: round64_eval)

lemma percent_50: "Math_round (js_mul (js_div (Fin 500) (Fin 1000)) (Fin 100)) = Fin 50"
  by (simp add: round64_eval)

lemma percent_5_10: "Math_round (js_mul (js_div (Fin 5) (Fin 10)) (Fin 100)) = Fin 50"
  by (simp add: round64_eval)

lemma quotient_23_40: "js_div (Fin 23) (Fin 40) = Fin (5179139571476070 / 2 ^ 53)"
  by (simp add: round64_eval)

lemma percent_23_40: "Math_round (js_mul (js_div (Fin 23) (Fin 40)) (Fin 100)) = Fin 57"
  unfolding quotient_23_40 by (simp add: round64_eval)

text \<open>The results.\<close>

lemma parse_12:
  "display_values approx ''12.1K / 12.1K (+3)'' =
     Some \<lparr>current = Fin 12100, maximum = Fin 12100, percentage = Fin 100,
           growthMultiplier = growth approx (Fin 12100) (Fin 12100)\<rparr>"
  unfolding display_values_def base_annotated parsePopulationValues_def match_12
  by (simp only: Let_def option.case prod.case value_12 percent_100)

lemma parse_500:
  "parsePopulationValues approx ''500/1000'' =
     Some \<lparr>current = Fin 500, maximum = Fin 1000, percentage = Fin 50,
           growthMultiplier = growth approx (Fin 500) (Fin 1000)\<rparr>"
  unfolding parsePopulationValues_def match_500
  by (simp only: Let_def option.case prod.case value_500 value_1000 percent_50)

lemma parse_zero:
  "parsePopulationValues approx ''5/0'' =
     Some \<lparr>current = Fin 5, maximum = Fin 0, percentage = PosInf,
           growthMultiplier = growth approx (Fin 5) (Fin 0)\<rparr>"
  unfolding parsePopulationValues_def match_zero
  by (simp only: Let_def option.case prod.case value_5 value_0) (simp add: inf_of_sign_def)


lemma parse_inside:
  "display_values approx ''x5/10y (+3)'' =
     Some \<lparr>current = Fin 5, maximum = Fin 10, percentage = Fin 50,
           growthMultiplier = growth approx (Fin 5) (Fin 10)\<rparr>"
  unfolding display_values_def base_inside parsePopulationValues_def match_inside
  by (simp only: Let_def option.case prod.case value_5 value_10 percent_5_10)

lemma parse_two_lines:
  "display_values approx two_lines =
     Some \<lparr>current = Fin 5, maximum = Fin 10, percentage = Fin 50,
           growthMultiplier = growth approx (Fin 5) (Fin 10)\<rparr>"
  unfolding display_values_def base_broken parsePopulationValues_def match_broken
  by (simp only: Let_def option.case prod.case value_5 value_10 percent_5_10)

lemma parse_23_40:
  "parsePopulationValues approx ''23/40'' =
     Some \<lparr>current = Fin 23, maximum = Fin 40, percentage = Fin 57,
           growthMultiplier = growth approx (Fin 23) (Fin 40)\<rparr>"
  unfolding parsePopulationValues_def match_23
  by (simp only: Let_def option.case prod.case value_23 value_40 percent_23_40)

lemma base_of_words:
  "(if list_all is_dot_char (strip_annotation ''not a number'')
    then trim (strip_annotation ''not a number'') else ''not a number'') = ''not a number''"
  by code_simp

subsection \<open>The properties of the parser\<close>

text \<open>
  C6, as the code has it.  Whenever \<open>parsePopulationValues\<close> returns a result, the regular
  expression has matched a part of the text that consists of four groups, with white space
  between them and around the slash: the first and the third group are unsigned decimals,
  the second and the fourth units.  \<open>current\<close> is the binary64 product of the binary64
  value nearest to the first number and the multiplier of the first unit, where \<open>k\<close>,
  \<open>m\<close>, \<open>b\<close> in either case are 1000, 1000000, 1000000000 and no unit is 1, and
  \<open>maximum\<close> is the same of the second number and the second unit; either is the exact
  product when the number has no fraction and the product is below \<open>2 ^ 53\<close>.
  \<open>percentage\<close> is \<open>Math.round\<close> of the binary64 product by 100 of the binary64
  quotient of \<open>current\<close> by \<open>maximum\<close>; \<open>Math.round\<close> takes a tie up, 49.5 to 50 and
  50.5 to 51.
\<close>

theorem parse_rounded_products:
  assumes "parsePopulationValues approx text = Some r"
  shows "\<exists>g1 g2 g3 g4.
           population_match text = Some (g1, g2, g3, g4) \<and>
           (\<exists>pre w1 w2 w3 w4 post.
              text = pre @ g1 @ w1 @ g2 @ w2 @ ''/'' @ w3 @ g3 @ w4 @ g4 @ post \<and>
              list_all is_space w1 \<and> list_all is_space w2 \<and> list_all is_space w3 \<and>
              list_all is_space w4) \<and>
           number_shape g1 \<and> unit_shape g2 \<and> number_shape g3 \<and> unit_shape g4 \<and>
           current r = js_mul (round64 (decimal_value g1)) (Fin (unit_multiplier g2)) \<and>
           maximum r = js_mul (round64 (decimal_value g3)) (Fin (unit_multiplier g4)) \<and>
           (list_all is_digit g1 \<and> decimal_value g1 * unit_multiplier g2 < 2 ^ 53 \<longrightarrow>
              current r = Fin (decimal_value g1 * unit_multiplier g2)) \<and>
           (list_all is_digit g3 \<and> decimal_value g3 * unit_multiplier g4 < 2 ^ 53 \<longrightarrow>
              maximum r = Fin (decimal_value g3 * unit_multiplier g4)) \<and>
           percentage r = Math_round (js_mul (js_div (current r) (maximum r)) (Fin 100)) \<and>
           Math_round (Fin 49.5) = Fin 50 \<and> Math_round (Fin 50.5) = Fin 51"
proof -
  from parse_Some [OF assms] obtain g1 g2 g3 g4 where
    g: "population_match text = Some (g1, g2, g3, g4)"
    and sh: "number_shape g1" "unit_shape g2" "number_shape g3" "unit_shape g4"
    and c: "current r = js_mul (round64 (decimal_value g1)) (Fin (unit_multiplier g2))"
    and m: "maximum r = js_mul (round64 (decimal_value g3)) (Fin (unit_multiplier g4))"
    and p: "percentage r = Math_round (js_mul (js_div (current r) (maximum r)) (Fin 100))"
    by blast
  note u2 = getMultiplier_unit [OF sh(2)] and u4 = getMultiplier_unit [OF sh(4)]
  have e1: "list_all is_digit g1 \<and> decimal_value g1 * unit_multiplier g2 < 2 ^ 53 \<longrightarrow>
      current r = Fin (decimal_value g1 * unit_multiplier g2)"
    unfolding c using product_exact [of g1 g2] u2 by simp
  have e2: "list_all is_digit g3 \<and> decimal_value g3 * unit_multiplier g4 < 2 ^ 53 \<longrightarrow>
      maximum r = Fin (decimal_value g3 * unit_multiplier g4)"
    unfolding m using product_exact [of g3 g4] u4 by simp
  have rr: "Math_round (Fin 49.5) = Fin 50" "Math_round (Fin 50.5) = Fin 51" by simp_all
  show ?thesis
    apply (rule exI [where x = g1], rule exI [where x = g2])
    apply (rule exI [where x = g3], rule exI [where x = g4])
    apply (intro conjI)
    apply (rule g, rule match_decomp [OF g], rule sh, rule sh, rule sh, rule sh)
    apply (rule c, rule m, rule e1, rule e2, rule p, rule rr, rule rr)
    done
qed

text \<open>\<open>"12.1K / 12.1K (+3)"\<close> gives 12100 of 12100, 100 percent; \<open>"500/1000"\<close> 500 and 50 percent.\<close>

theorem parse_rounded_products_witness:
  "map_option current (display_values nearest_power ''12.1K / 12.1K (+3)'') = Some (Fin 12100) \<and>
   map_option maximum (display_values nearest_power ''12.1K / 12.1K (+3)'') = Some (Fin 12100) \<and>
   map_option percentage (display_values nearest_power ''12.1K / 12.1K (+3)'') = Some (Fin 100) \<and>
   map_option current (parsePopulationValues nearest_power ''500/1000'') = Some (Fin 500) \<and>
   map_option percentage (parsePopulationValues nearest_power ''500/1000'') = Some (Fin 50)"
  using parse_rounded_products [OF parse_500 [of nearest_power]]
  by (simp add: parse_12 parse_500)

text \<open>
  The products and the quotient are rounded.  \<open>"23/40"\<close> gives 57 percent, where
  \<open>Math.round\<close> of the exact \<open>23 / 40 * 100\<close> is 58; and the \<open>current\<close> of
  \<open>"2.01k / 10k"\<close> is below \<open>2.01 * 1000\<close>.
\<close>

theorem binary_rounding_counterexample:
  "map_option percentage (parsePopulationValues nearest_power ''23/40'') = Some (Fin 57) \<and>
   Math_round (Fin (23 / 40 * 100)) = Fin 58 \<and>
   map_option current (parsePopulationValues nearest_power ''2.01k / 10k'') =
     Some (Fin (8840073487319039 / 2 ^ 42)) \<and>
   (8840073487319039 / 2 ^ 42 :: real) < 2.01 * 1000"
  by (simp add: parse_23_40 parse_fields(1) [OF match_201] value_201)

text \<open>
  C2, as the code has it.  \<open>parsePopulationValues\<close> returns no result only when the
  regular expression does not match; a maximum of zero is not rejected.  In every result
  \<open>current\<close> and \<open>maximum\<close> are numbers that are not negative, or \<open>Infinity\<close>, and over a
  maximum of zero the percentage is \<open>Infinity\<close>, or \<open>NaN\<close> when \<open>current\<close> is zero too.
\<close>

theorem zero_maximum_not_rejected:
  "(parsePopulationValues approx text = None \<longleftrightarrow> population_match text = None) \<and>
   (parsePopulationValues approx text = Some r \<longrightarrow>
      nonneg_num (current r) \<and> nonneg_num (maximum r) \<and>
      (maximum r = Fin 0 \<longrightarrow> percentage r = (if current r = Fin 0 then NaN else PosInf)))"
proof (intro conjI impI)
  show "parsePopulationValues approx text = None \<longleftrightarrow> population_match text = None"
    by (rule parse_None_iff)
next
  assume a: "parsePopulationValues approx text = Some r"
  from parse_nonneg [OF a] show "nonneg_num (current r)" "nonneg_num (maximum r)" by simp_all
next
  assume a: "parsePopulationValues approx text = Some r" and z: "maximum r = Fin 0"
  from parse_Some [OF a]
  have "percentage r = Math_round (js_mul (js_div (current r) (maximum r)) (Fin 100))" by blast
  with z parse_nonneg [OF a] show "percentage r = (if current r = Fin 0 then NaN else PosInf)"
    by (simp add: percentage_zero_maximum)
qed

text \<open>\<open>"500/1000"\<close> has a result with maximum 1000, and \<open>"5/0"\<close> one with maximum 0.\<close>

theorem zero_maximum_not_rejected_witness:
  "parsePopulationValues nearest_power ''500/1000'' \<noteq> None \<and>
   maximum (the (parsePopulationValues nearest_power ''500/1000'')) = Fin 1000 \<and>
   nonneg_num (current (the (parsePopulationValues nearest_power ''500/1000''))) \<and>
   maximum (the (parsePopulationValues nearest_power ''5/0'')) = Fin 0 \<and>
   percentage (the (parsePopulationValues nearest_power ''5/0'')) = PosInf"
  using zero_maximum_not_rejected
      [of nearest_power "''500/1000''" "the (parsePopulationValues nearest_power ''500/1000'')"]
    zero_maximum_not_rejected
      [of nearest_power "''5/0''" "the (parsePopulationValues nearest_power ''5/0'')"]
  by (simp add: parse_500 parse_zero)

text \<open>\<open>"5/0"\<close> is parsed, with maximum 0 and percentage \<open>Infinity\<close>.\<close>

theorem zero_maximum_counterexample:
  "map_option current (parsePopulationValues nearest_power ''5/0'') = Some (Fin 5) \<and>
   map_option maximum (parsePopulationValues nearest_power ''5/0'') = Some (Fin 0) \<and>
   map_option percentage (parsePopulationValues nearest_power ''5/0'') = Some PosInf"
  by (simp add: parse_zero)

text \<open>
  C7, as the code has it.  The regular expression is not anchored: the text of the
  population element gives no result exactly when its base text has no part of the shape
  \<open><number>[unit]? / <number>[unit]?\<close>, and what stands before and after such a part
  is ignored.  The base text is the text without the longest annotation at its end, with
  the white space off both ends; but when a line terminator stands before that annotation,
  or anywhere in a text without one, the base text is the whole text.  What is taken off
  is nothing or one annotation: white space, an opening parenthesis, characters other
  than the closing parenthesis, and a closing parenthesis that ends the text; and no
  annotation that ends the text begins before it.  The same equivalence holds of
  \<open>parsePopulationValues\<close> on any string.  All of these are total functions: nothing is
  thrown.
\<close>

theorem unanchored_match:
  "(display_values approx text = None \<longleftrightarrow>
      \<not> (\<exists>pre m post.
            (if list_all is_dot_char (strip_annotation text) then trim (strip_annotation text)
             else text) = pre @ m @ post \<and>
            population_shape m)) \<and>
   (\<exists>a. text = strip_annotation text @ a \<and>
      (a = [] \<or>
       (\<exists>w b. a = w @ ''('' @ b @ '')'' \<and> list_all is_space w \<and> CHR '')'' \<notin> set b))) \<and>
   (text = g @ w @ ''('' @ b @ '')'' \<and> list_all is_space w \<and> CHR '')'' \<notin> set b \<longrightarrow>
      length (strip_annotation text) \<le> length g) \<and>
   (parsePopulationValues approx text = None \<longleftrightarrow>
      \<not> (\<exists>pre m post. text = pre @ m @ post \<and> population_shape m))"
proof -
  have a: "display_values approx text = None \<longleftrightarrow>
      \<not> (\<exists>pre m post.
            (if list_all is_dot_char (strip_annotation text) then trim (strip_annotation text)
             else text) = pre @ m @ post \<and>
            population_shape m)"
    unfolding display_values_def parse_None_iff no_match_iff baseText_strip ..
  have b: "\<exists>a. text = strip_annotation text @ a \<and>
      (a = [] \<or>
       (\<exists>w b. a = w @ ''('' @ b @ '')'' \<and> list_all is_space w \<and> CHR '')'' \<notin> set b))"
    using strip_annotation_decomp [of "text"] by (simp add: is_annotation_iff)
  have c: "text = g @ w @ ''('' @ b @ '')'' \<and> list_all is_space w \<and> CHR '')'' \<notin> set b \<longrightarrow>
      length (strip_annotation text) \<le> length g"
  proof
    assume h: "text = g @ w @ ''('' @ b @ '')'' \<and> list_all is_space w \<and> CHR '')'' \<notin> set b"
    then have "is_annotation (w @ ''('' @ b @ '')'')" unfolding is_annotation_iff by blast
    with h show "length (strip_annotation text) \<le> length g"
      using strip_annotation_longest [of "text" g "w @ ''('' @ b @ '')''"] by simp
  qed
  have d: "parsePopulationValues approx text = None \<longleftrightarrow>
      \<not> (\<exists>pre m post. text = pre @ m @ post \<and> population_shape m)"
    unfolding parse_None_iff no_match_iff ..
  from a b c d show ?thesis by (intro conjI)
qed

text \<open>
  \<open>"not a number"\<close> has no such part.  \<open>"x5/10y (+3)"\<close> has one, and so has the text of
  two lines, inside the annotation that is not taken off.
\<close>

theorem unanchored_match_witness:
  "display_values nearest_power ''not a number'' = None \<and>
   \<not> (\<exists>pre m post. ''not a number'' = pre @ m @ post \<and> population_shape m) \<and>
   length (strip_annotation ''x5/10y (+3)'') \<le> length ''x5/10y'' \<and>
   display_values nearest_power ''x5/10y (+3)'' \<noteq> None \<and>
   display_values nearest_power two_lines \<noteq> None"
proof -
  have a: "display_values nearest_power ''not a number'' = None"
    unfolding display_values_def base_words parse_None_iff by (rule match_words)
  from unanchored_match [of nearest_power "''not a number''" "[]" "[]" "[]", THEN conjunct1] a
  have "\<not> (\<exists>pre m post.
            (if list_all is_dot_char (strip_annotation ''not a number'')
             then trim (strip_annotation ''not a number'') else ''not a number'') =
            pre @ m @ post \<and> population_shape m)"
    by (rule iffD1)
  then have b: "\<not> (\<exists>pre m post. ''not a number'' = pre @ m @ post \<and> population_shape m)"
    unfolding base_of_words .
  have c: "display_values nearest_power ''x5/10y (+3)'' \<noteq> None"
    "display_values nearest_power two_lines \<noteq> None"
    by (simp_all add: parse_inside parse_two_lines)
  have d: "length (strip_annotation ''x5/10y (+3)'') \<le> length ''x5/10y''"
    using unanchored_match [of nearest_power "''x5/10y (+3)''" "''x5/10y''" "'' ''" "''+3''",
        THEN conjunct2, THEN conjunct2, THEN conjunct1]
    by (simp add: is_space_def)
  from a b d c show ?thesis by (intro conjI)
qed

text \<open>
  The base text of \<open>"x5/10y (+3)"\<close> is \<open>"x5/10y"\<close>, which is not of the shape as a
  whole; the result is 5 of 10, 50 percent.
\<close>

theorem substring_match_counterexample:
  "strip_annotation ''x5/10y (+3)'' = ''x5/10y'' \<and> baseText ''x5/10y (+3)'' = ''x5/10y'' \<and>
   \<not> population_shape ''x5/10y'' \<and>
   map_option current (display_values nearest_power ''x5/10y (+3)'') = Some (Fin 5) \<and>
   map_option maximum (display_values nearest_power ''x5/10y (+3)'') = Some (Fin 10) \<and>
   map_option percentage (display_values nearest_power ''x5/10y (+3)'') = Some (Fin 50)"
proof -
  have "\<not> population_shape ''x5/10y''"
    using population_shape_starts_with_digit [of "''x5/10y''"] by (auto simp: is_digit_def)
  moreover have "map_option current (display_values nearest_power ''x5/10y (+3)'') = Some (Fin 5)"
    "map_option maximum (display_values nearest_power ''x5/10y (+3)'') = Some (Fin 10)"
    "map_option percentage (display_values nearest_power ''x5/10y (+3)'') = Some (Fin 50)"
    by (simp_all add: parse_inside)
  ultimately show ?thesis using strip_inside base_inside by (intro conjI)
qed



section \<open>Facts about the recorder\<close>

lemmas recorder_defs = updateRecording_def invalid_tick_def new_game_def record_sample_def
  periodic_save_def saveRecordingToStorage_def truthy_def

lemma updateRecording_valid:
  "updateRecording True p g t s =
     (let sw = (g \<noteq> currentGameId s);
          buf = (if sw then [] else recording s);
          lastR = (if sw then 0 else lastRecorded s);
          lastS = (if sw then 0 else lastStorageSave s);
          app = (t - lastR > 1000);
          buf' = (if app then buf @ [p] else buf);
          cid = (if sw then g else currentGameId s)
      in ((if sw \<and> truthy (currentGameId s) \<and> recording s \<noteq> []
           then [StorageSet (the (currentGameId s)) (recording s) t] else []) @
          (if app then [LogRecording p] else []) @
          (if t - lastS > 5000 \<and> truthy cid \<and> buf' \<noteq> [] then [StorageSet (the cid) buf' t] else []),
          \<lparr>gameState = (if sw then RECORDING else gameState s),
           gameStart = (if sw then t else gameStart s),
           recording = buf',
           lastRecorded = (if app then t else lastR),
           lastStorageSave = (if t - lastS > 5000 then t else lastS),
           currentGameId = cid\<rparr>))"
  by (simp add: recorder_defs Let_def)

lemma updateRecording_invalid:
  "updateRecording False p g t s =
     ((if gameState s \<noteq> NOT_ACTIVE \<and> truthy (currentGameId s) \<and> recording s \<noteq> []
       then [StorageSet (the (currentGameId s)) (recording s) t] else []),
      \<lparr>gameState = NOT_ACTIVE, gameStart = t, recording = [], lastRecorded = 0,
       lastStorageSave = 0, currentGameId = None\<rparr>)"
  by (simp add: recorder_defs)

lemma saveRecordingToStorage_cases:
  "saveRecordingToStorage now s =
     (case currentGameId s of
        None \<Rightarrow> []
      | Some g \<Rightarrow> if g = [] \<or> recording s = [] then [] else [StorageSet g (recording s) now])"
  by (simp add: saveRecordingToStorage_def truthy_def split: option.split)

lemma save_writes:
  "StorageSet k v t \<in> set (saveRecordingToStorage now s) \<Longrightarrow>
     currentGameId s = Some k \<and> k \<noteq> [] \<and> v = recording s \<and> v \<noteq> [] \<and> t = now"
  by (auto simp: saveRecordingToStorage_cases split: option.splits if_splits)

lemma invalid_tick_writes:
  "StorageSet k v t \<in> set (fst (invalid_tick now s)) \<Longrightarrow> k \<noteq> [] \<and> v \<noteq> []"
  by (auto simp: invalid_tick_def dest: save_writes split: if_splits)

lemma new_game_writes:
  "StorageSet k v t \<in> set (fst (new_game g now s)) \<Longrightarrow> k \<noteq> [] \<and> v \<noteq> []"
  by (auto simp: new_game_def dest: save_writes split: if_splits)

lemma record_sample_writes:
  "StorageSet k v t \<notin> set (fst (record_sample p now s))"
  by (simp add: record_sample_def)

lemma periodic_save_writes:
  "StorageSet k v t \<in> set (fst (periodic_save now s)) \<Longrightarrow> k \<noteq> [] \<and> v \<noteq> []"
  by (auto simp: periodic_save_def dest: save_writes split: if_splits)

lemma updateRecording_writes:
  "StorageSet k v t \<in> set (fst (updateRecording vl p g now s)) \<Longrightarrow> k \<noteq> [] \<and> v \<noteq> []"
proof (cases vl)
  case False
  assume "StorageSet k v t \<in> set (fst (updateRecording vl p g now s))"
  with False show ?thesis
    using invalid_tick_writes [of k v t now s] by (simp add: updateRecording_def)
next
  case True
  assume w: "StorageSet k v t \<in> set (fst (updateRecording vl p g now s))"
  obtain e1 s1 where n: "new_game g now s = (e1, s1)" by (cases "new_game g now s")
  obtain e2 s2 where r: "record_sample p now s1 = (e2, s2)" by (cases "record_sample p now s1")
  obtain e3 s3 where q: "periodic_save now s2 = (e3, s3)" by (cases "periodic_save now s2")
  from w True n r q have "StorageSet k v t \<in> set e1 \<union> set e2 \<union> set e3"
    by (simp add: updateRecording_def)
  then show ?thesis
    using new_game_writes [of k v t g now s] record_sample_writes [of k v t p now s1]
      periodic_save_writes [of k v t now s2] n r q
    by auto
qed

lemma run_writes:
  "StorageSet k v t \<in> set (fst (run ts s)) \<Longrightarrow> k \<noteq> [] \<and> v \<noteq> []"
proof (induction ts arbitrary: s)
  case Nil
  then show ?case by simp
next
  case (Cons a ts)
  obtain e s' where
    u: "updateRecording (tick_valid a) (tick_population a) (tick_gameId a) (tick_now a) s = (e, s')"
    by (cases "updateRecording (tick_valid a) (tick_population a) (tick_gameId a) (tick_now a) s")
  obtain es s'' where r: "run ts s' = (es, s'')" by (cases "run ts s'")
  from Cons.prems u r have "StorageSet k v t \<in> set e \<or> StorageSet k v t \<in> set es"
    by simp
  then show ?case
    using updateRecording_writes
        [of k v t "tick_valid a" "tick_population a" "tick_gameId a" "tick_now a" s]
      Cons.IH [of s'] u r
    by auto
qed

text \<open>
  C10.  Every write that the recorder issues has a non-empty key, which is the session id
  at the time of the call, and a non-empty list of samples: \<open>saveRecordingToStorage\<close>
  writes nothing when the session id is \<open>null\<close> (or the empty string) or the buffer is
  empty, and no call of \<open>updateRecording\<close>, hence no sequence of ticks from any state,
  issues a write with an empty recording.
\<close>

theorem recorder_writes_nonempty:
  "(\<not> truthy (currentGameId s) \<or> recording s = [] \<longrightarrow> saveRecordingToStorage t0 s = []) \<and>
   (StorageSet k v t \<in> set (saveRecordingToStorage t0 s) \<longrightarrow>
      currentGameId s = Some k \<and> k \<noteq> [] \<and> v = recording s \<and> v \<noteq> []) \<and>
   (StorageSet k v t \<in> set (fst (updateRecording vl p g t0 s)) \<longrightarrow> k \<noteq> [] \<and> v \<noteq> []) \<and>
   (StorageSet k v t \<in> set (fst (run ts s)) \<longrightarrow> k \<noteq> [] \<and> v \<noteq> [])"
proof -
  have a: "\<not> truthy (currentGameId s) \<or> recording s = [] \<longrightarrow> saveRecordingToStorage t0 s = []"
    by (auto simp: saveRecordingToStorage_def)
  have b: "StorageSet k v t \<in> set (saveRecordingToStorage t0 s) \<longrightarrow>
      currentGameId s = Some k \<and> k \<noteq> [] \<and> v = recording s \<and> v \<noteq> []"
    using save_writes by blast
  have c: "StorageSet k v t \<in> set (fst (updateRecording vl p g t0 s)) \<longrightarrow> k \<noteq> [] \<and> v \<noteq> []"
    using updateRecording_writes by blast
  have d: "StorageSet k v t \<in> set (fst (run ts s)) \<longrightarrow> k \<noteq> [] \<and> v \<noteq> []"
    using run_writes by blast
  from a b c d show ?thesis by blast
qed

theorem recorder_writes_nonempty_witness:
  "StorageSet ''A'' [Fin 100] 6000
     \<in> set (fst (updateRecording True (Fin 100) (Some ''A'') 6000 (initial 0))) \<and>
   ''A'' \<noteq> [] \<and> [Fin 100] \<noteq> []"
proof -
  have h: "StorageSet ''A'' [Fin 100] 6000
     \<in> set (fst (updateRecording True (Fin 100) (Some ''A'') 6000 (initial 0)))"
    by (simp add: updateRecording_def new_game_def record_sample_def periodic_save_def
        saveRecordingToStorage_def truthy_def initial_def)
  from h recorder_writes_nonempty
    [of "initial 0" 6000 "''A''" "[Fin 100]" 6000 True "Fin 100" "Some ''A''" "[]"]
  show ?thesis by blast
qed

lemma no_append_within_second:
  "\<forall>k\<in>set ts. tick_valid k \<and> tick_gameId k = currentGameId s \<and> tick_now k - lastRecorded s \<le> 1000 \<Longrightarrow>
     recording (snd (run ts s)) = recording s \<and> lastRecorded (snd (run ts s)) = lastRecorded s \<and>
     currentGameId (snd (run ts s)) = currentGameId s \<and>
     LogRecording q \<notin> set (fst (run ts s))"
proof (induction ts arbitrary: s)
  case Nil
  show ?case by simp
next
  case (Cons a ts)
  let ?u = "updateRecording (tick_valid a) (tick_population a) (tick_gameId a) (tick_now a) s"
  from Cons.prems have a: "tick_valid a" "tick_gameId a = currentGameId s"
    "tick_now a - lastRecorded s \<le> 1000"
    by auto
  then have u: "recording (snd ?u) = recording s" "lastRecorded (snd ?u) = lastRecorded s"
    "currentGameId (snd ?u) = currentGameId s" "LogRecording q \<notin> set (fst ?u)"
    by (simp_all add: updateRecording_valid Let_def)
  from Cons.prems u have "\<forall>k\<in>set ts. tick_valid k \<and> tick_gameId k = currentGameId (snd ?u) \<and>
      tick_now k - lastRecorded (snd ?u) \<le> 1000"
    by simp
  from Cons.IH [OF this] u show ?case
    by (simp add: split_def Let_def)
qed

text \<open>
  C1, as the code has it.  On a tick with \<open>valid == true\<close> the population is appended,
  once, exactly when strictly more than 1000 ms have passed since \<open>lastRecorded\<close>, which
  is 0 when the tick has just switched to another game id (so the first sample of a
  session is taken whenever the clock is past 1000); the buffer and \<open>lastRecorded\<close> after
  the tick are given in full.  A tick with \<open>valid == false\<close> appends nothing and leaves
  the state \<open>NOT_ACTIVE\<close>; a valid tick that switches the id, or that finds the recorder
  \<open>RECORDING\<close>, leaves it \<open>RECORDING\<close>.  However many valid ticks of the same game fall
  within 1000 ms of \<open>lastRecorded\<close>, none of them appends.
\<close>

theorem sampling_rule:
  "(LogRecording q \<in> set (fst (updateRecording vl p g t s)) \<longleftrightarrow>
      q = p \<and> vl \<and> 1000 < t - (if g \<noteq> currentGameId s then 0 else lastRecorded s)) \<and>
   recording (snd (updateRecording vl p g t s)) =
     (if vl then (if g \<noteq> currentGameId s then [] else recording s) @
        (if 1000 < t - (if g \<noteq> currentGameId s then 0 else lastRecorded s) then [p] else [])
      else []) \<and>
   lastRecorded (snd (updateRecording vl p g t s)) =
     (if vl then (if 1000 < t - (if g \<noteq> currentGameId s then 0 else lastRecorded s) then t
                  else if g \<noteq> currentGameId s then 0 else lastRecorded s)
      else 0) \<and>
   (\<not> vl \<longrightarrow> gameState (snd (updateRecording vl p g t s)) = NOT_ACTIVE) \<and>
   (vl \<and> (g \<noteq> currentGameId s \<or> gameState s = RECORDING) \<longrightarrow>
      gameState (snd (updateRecording vl p g t s)) = RECORDING) \<and>
   ((\<forall>k\<in>set ts. tick_valid k \<and> tick_gameId k = currentGameId s \<and>
        tick_now k - lastRecorded s \<le> 1000) \<longrightarrow>
      recording (snd (run ts s)) = recording s \<and> LogRecording q \<notin> set (fst (run ts s)))"
proof (cases vl)
  case True
  then show ?thesis
    using no_append_within_second [of ts s q]
    by (auto simp: updateRecording_valid Let_def)
next
  case False
  then show ?thesis
    using no_append_within_second [of ts s q]
    by (auto simp: updateRecording_invalid)
qed

lemma session_A_eq:
  "session_A = \<lparr>gameState = RECORDING, gameStart = T0, recording = [Fin 5], lastRecorded = T0,
     lastStorageSave = T0, currentGameId = Some ''A''\<rparr>"
  by (simp add: session_A_def updateRecording_valid initial_def T0_def Let_def)

lemma recording_no_id_eq:
  "recording_no_id = \<lparr>gameState = RECORDING, gameStart = T0 + 100, recording = [Fin 2],
     lastRecorded = T0 + 100, lastStorageSave = T0 + 100, currentGameId = None\<rparr>"
  by (simp add: recording_no_id_def tk_def updateRecording_valid initial_def T0_def Let_def truthy_def)

text \<open>
  In game \<open>A\<close>, sampled at \<open>T0\<close>: ticks 500 ms and 1000 ms later append nothing, a tick
  1001 ms later appends, and an invalid tick leaves the recorder \<open>NOT_ACTIVE\<close>.
\<close>

theorem sampling_rule_witness:
  "recording (snd (run [tk True (Fin 6) (Some ''A'') (T0 + 500), tk True (Fin 7) (Some ''A'') (T0 + 1000)]
      session_A)) = [Fin 5] \<and>
   recording (snd (updateRecording True (Fin 8) (Some ''A'') (T0 + 1001) session_A)) = [Fin 5, Fin 8] \<and>
   gameState (snd (updateRecording True (Fin 8) (Some ''A'') (T0 + 1001) session_A)) = RECORDING \<and>
   gameState (snd (updateRecording False (Fin 0) (Some ''A'') (T0 + 1001) session_A)) = NOT_ACTIVE"
  using sampling_rule [of "Fin 8" True "Fin 8" "Some ''A''" "T0 + 1001" session_A
      "[tk True (Fin 6) (Some ''A'') (T0 + 500), tk True (Fin 7) (Some ''A'') (T0 + 1000)]"]
    sampling_rule [of "Fin 8" False "Fin 0" "Some ''A''" "T0 + 1001" session_A "[]"]
  by (simp add: session_A_eq tk_def)

text \<open>
  Exactly 1000 ms after the last sample, in state \<open>RECORDING\<close>, the tick appends nothing
  and changes nothing.  And the first valid tick on a page without a game id appends its
  sample although the state stays \<open>NOT_ACTIVE\<close>.
\<close>

theorem sampling_threshold_counterexample:
  "gameState session_A = RECORDING \<and> lastRecorded session_A = T0 \<and>
   updateRecording True (Fin 7) (Some ''A'') (T0 + 1000) session_A = ([], session_A) \<and>
   fst (updateRecording True (Fin 2) None T0 (initial T0)) = [LogRecording (Fin 2)] \<and>
   gameState (snd (updateRecording True (Fin 2) None T0 (initial T0))) = NOT_ACTIVE \<and>
   recording (snd (updateRecording True (Fin 2) None T0 (initial T0))) = [Fin 2]"
  by (simp add: session_A_eq updateRecording_valid Let_def initial_def T0_def truthy_def)

text \<open>
  C3, as the code has it.  The buffer is discarded by an invalid tick while the state is
  not \<open>NOT_ACTIVE\<close> and by a valid tick whose game id differs from the current one.  If
  then the current id is neither \<open>null\<close> nor empty and the buffer is not empty, the first
  effect of the tick is the write of the whole buffer under the current id; the only other
  write the tick can issue is that of the new game's first sample.  If the current id is
  \<open>null\<close> or the buffer is empty, the old buffer is not written.  In both cases the
  buffer after the tick holds at most the sample of this tick.
\<close>

theorem discard_flushes_first:
  assumes "(\<not> vl \<and> gameState s \<noteq> NOT_ACTIVE) \<or> (vl \<and> g \<noteq> currentGameId s)"
  shows "(truthy (currentGameId s) \<and> recording s \<noteq> [] \<longrightarrow>
            (\<exists>rest. fst (updateRecording vl p g t s) =
                StorageSet (the (currentGameId s)) (recording s) t # rest \<and>
              (StorageSet k v t' \<in> set rest \<longrightarrow> g = Some k \<and> v = [p] \<and> t' = t))) \<and>
         (\<not> (truthy (currentGameId s) \<and> recording s \<noteq> []) \<longrightarrow>
            (StorageSet k v t' \<in> set (fst (updateRecording vl p g t s)) \<longrightarrow>
               g = Some k \<and> v = [p] \<and> t' = t)) \<and>
         (recording (snd (updateRecording vl p g t s)) = [] \<or>
          recording (snd (updateRecording vl p g t s)) = [p])"
proof (cases vl)
  case True
  with assms show ?thesis
    by (cases g) (auto simp: updateRecording_valid Let_def truthy_def)
next
  case False
  with assms show ?thesis
    by (auto simp: updateRecording_invalid)
qed

text \<open>Game \<open>A\<close> with one sample: ended by an invalid tick, and left for game \<open>B\<close>.\<close>

theorem discard_flushes_first_witness:
  "fst (updateRecording False (Fin 0) None (T0 + 100) session_A) = [StorageSet ''A'' [Fin 5] (T0 + 100)] \<and>
   recording (snd (updateRecording False (Fin 0) None (T0 + 100) session_A)) = [] \<and>
   hd (fst (updateRecording True (Fin 9) (Some ''B'') (T0 + 100) session_A)) = StorageSet ''A'' [Fin 5] (T0 + 100) \<and>
   recording (snd (updateRecording True (Fin 9) (Some ''B'') (T0 + 100) session_A)) = [Fin 9]"
proof -
  have a: "(\<not> False \<and> gameState session_A \<noteq> NOT_ACTIVE) \<or> (False \<and> None \<noteq> currentGameId session_A)"
    by (simp add: session_A_eq)
  have b: "(\<not> True \<and> gameState session_A \<noteq> NOT_ACTIVE) \<or> (True \<and> Some ''B'' \<noteq> currentGameId session_A)"
    by (simp add: session_A_eq)
  have c: "recording (snd (updateRecording False (Fin 0) None (T0 + 100) session_A)) = []"
    "fst (updateRecording False (Fin 0) None (T0 + 100) session_A) = [StorageSet ''A'' [Fin 5] (T0 + 100)]"
    "recording (snd (updateRecording True (Fin 9) (Some ''B'') (T0 + 100) session_A)) = [Fin 9]"
    by (simp_all add: session_A_eq updateRecording_invalid updateRecording_valid Let_def truthy_def T0_def)
  from discard_flushes_first [OF a, where p = "Fin 0" and t = "T0 + 100" and k = "''x''" and v = "[]"
      and t' = 0]
    discard_flushes_first [OF b, where p = "Fin 9" and t = "T0 + 100" and k = "''x''" and v = "[]"
      and t' = 0] c
  show ?thesis
    by (auto simp: session_A_eq truthy_def)
qed

text \<open>
  From the start: a valid tick on a page without a game id, then a valid tick of game
  \<open>A\<close>.  The sample 2 is logged as recorded; the second tick discards it, and it is in no
  write.
\<close>

theorem samples_without_id_dropped_counterexample:
  "run [tk True (Fin 2) None T0, tk True (Fin 3) (Some ''A'') (T0 + 100)] (initial T0) =
     ([LogRecording (Fin 2), LogRecording (Fin 3), StorageSet ''A'' [Fin 3] (T0 + 100)],
      \<lparr>gameState = RECORDING, gameStart = T0 + 100, recording = [Fin 3],
       lastRecorded = T0 + 100, lastStorageSave = T0 + 100, currentGameId = Some ''A''\<rparr>)"
  by (simp add: tk_def updateRecording_valid initial_def T0_def Let_def truthy_def)

text \<open>
  C4, as the code has it.  An invalid tick in state \<open>RECORDING\<close> issues exactly one write,
  that of the whole buffer under the current id, when the id is neither \<open>null\<close> nor empty
  and the buffer is not empty, and no write otherwise; it resets the state, the buffer,
  the id and both timers.  A second invalid tick issues nothing and changes nothing but
  \<open>gameStart\<close>.
\<close>

theorem final_flush:
  assumes "gameState s = RECORDING"
  shows "fst (updateRecording False p g t s) =
           (if truthy (currentGameId s) \<and> recording s \<noteq> []
            then [StorageSet (the (currentGameId s)) (recording s) t] else []) \<and>
         snd (updateRecording False p g t s) =
           \<lparr>gameState = NOT_ACTIVE, gameStart = t, recording = [], lastRecorded = 0,
            lastStorageSave = 0, currentGameId = None\<rparr> \<and>
         updateRecording False p' g' t' (snd (updateRecording False p g t s)) =
           ([], (snd (updateRecording False p g t s))\<lparr>gameStart := t'\<rparr>)"
  using assms by (simp add: updateRecording_invalid)

text \<open>Game \<open>A\<close> with one sample, followed by two invalid ticks.\<close>

theorem final_flush_witness:
  "gameState session_A = RECORDING \<and>
   fst (updateRecording False (Fin 0) None (T0 + 100) session_A) =
     [StorageSet ''A'' [Fin 5] (T0 + 100)] \<and>
   fst (updateRecording False (Fin 0) None (T0 + 200)
          (snd (updateRecording False (Fin 0) None (T0 + 100) session_A))) = []"
proof -
  have a: "gameState session_A = RECORDING" by (simp add: session_A_eq)
  from final_flush [OF a, of "Fin 0" None "T0 + 100" "Fin 0" None "T0 + 200"] a
  show ?thesis by (simp add: session_A_eq truthy_def updateRecording_invalid)
qed

text \<open>
  The recorder is \<open>RECORDING\<close> with one sample in the buffer and no game id: the invalid
  tick issues no write and empties the buffer.
\<close>

theorem final_flush_without_id_counterexample:
  "gameState recording_no_id = RECORDING \<and> recording recording_no_id = [Fin 2] \<and>
   fst (updateRecording False (Fin 0) None (T0 + 200) recording_no_id) = [] \<and>
   recording (snd (updateRecording False (Fin 0) None (T0 + 200) recording_no_id)) = []"
  by (simp add: recording_no_id_eq updateRecording_invalid truthy_def)

text \<open>
  C5, as the code has it.  A valid tick whose game id differs from the current one first
  writes the buffer under the current id, if that id is neither \<open>null\<close> nor empty and the
  buffer holds a sample; then it starts the new recording, whose buffer holds the sample
  of this tick and nothing else, adopts the new id and is \<open>RECORDING\<close>.  The effects of the
  tick and the state after it are given in full: the old buffer is written without the
  new sample, and the new buffer has none of the old ones.
\<close>

theorem session_switch:
  assumes "g \<noteq> currentGameId s"
  shows "fst (updateRecording True p g t s) =
           (if truthy (currentGameId s) \<and> recording s \<noteq> []
            then [StorageSet (the (currentGameId s)) (recording s) t] else []) @
           (if 1000 < t then [LogRecording p] else []) @
           (if 5000 < t \<and> truthy g then [StorageSet (the g) [p] t] else []) \<and>
         snd (updateRecording True p g t s) =
           \<lparr>gameState = RECORDING, gameStart = t,
            recording = (if 1000 < t then [p] else []),
            lastRecorded = (if 1000 < t then t else 0),
            lastStorageSave = (if 5000 < t then t else 0),
            currentGameId = g\<rparr>"
  using assms by (simp add: updateRecording_valid Let_def)

text \<open>Game \<open>A\<close> with one sample, left for game \<open>B\<close>.\<close>

theorem session_switch_witness:
  "Some ''B'' \<noteq> currentGameId session_A \<and>
   fst (updateRecording True (Fin 9) (Some ''B'') (T0 + 100) session_A) =
     [StorageSet ''A'' [Fin 5] (T0 + 100), LogRecording (Fin 9), StorageSet ''B'' [Fin 9] (T0 + 100)] \<and>
   recording (snd (updateRecording True (Fin 9) (Some ''B'') (T0 + 100) session_A)) = [Fin 9]"
proof -
  have a: "Some ''B'' \<noteq> currentGameId session_A" by (simp add: session_A_eq)
  from session_switch [OF a, of "Fin 9" "T0 + 100"] a
  show ?thesis by (simp add: session_A_eq truthy_def T0_def)
qed

text \<open>
  The recorder is \<open>RECORDING\<close> with one sample in the buffer and no game id: the tick that
  switches to game \<open>B\<close> writes only the new sample, and the old one is gone.
\<close>

theorem switch_without_id_counterexample:
  "gameState recording_no_id = RECORDING \<and> currentGameId recording_no_id = None \<and>
   recording recording_no_id = [Fin 2] \<and>
   fst (updateRecording True (Fin 3) (Some ''B'') (T0 + 200) recording_no_id) =
     [LogRecording (Fin 3), StorageSet ''B'' [Fin 3] (T0 + 200)] \<and>
   recording (snd (updateRecording True (Fin 3) (Some ''B'') (T0 + 200) recording_no_id)) = [Fin 3]"
  by (simp add: recording_no_id_eq updateRecording_valid Let_def truthy_def T0_def)

section \<open>Facts about the export\<close>

lemma csv_loop_eq:
  "csv_loop toString result acc =
     acc @ concat (map (\<lambda>(gameId, v). csv_row toString gameId v)
                     (filter (\<lambda>(gameId, v). has_recording v) result))"
  by (induction result arbitrary: acc) auto

lemma has_recording_iff: "has_recording v \<longleftrightarrow> (\<exists>xs ts. v = Entry (Some xs) ts \<and> xs \<noteq> [])"
  by (cases v rule: has_recording.cases) auto

text \<open>
  C9.  The content of the file is the header line \<open>game_id,population_values\<close> followed,
  in the order of the keys, by one line \<open><gameId>,<v1>,...,<vn>\<close> for each entry of the
  store that has a non-empty recording, and by nothing for the others.  When the store
  has no key, the listener logs that there is no data and downloads nothing; otherwise
  its one effect is the download of that content.
\<close>

theorem export_rows:
  "csv_loop toString result (''game_id,population_values'' @ [CHR 0x0A]) =
     ''game_id,population_values'' @ [CHR 0x0A] @
     concat (map (\<lambda>(gameId, v). gameId @ '','' @ join '','' (map toString (recording_of v)) @ [CHR 0x0A])
               (filter (\<lambda>(gameId, v). \<exists>xs ts. v = Entry (Some xs) ts \<and> xs \<noteq> []) result)) \<and>
   onClicked toString enc [] = [ConsoleLog ''No recording data found in storage''] \<and>
   (result \<noteq> [] \<longrightarrow>
      onClicked toString enc result =
        [Download (''data:text/csv;charset=utf-8,'' @
           enc (csv_loop toString result (''game_id,population_values'' @ [CHR 0x0A])))])"
proof -
  have "(\<lambda>(gameId, v). has_recording v) = (\<lambda>(gameId :: string, v). \<exists>xs ts. v = Entry (Some xs) ts \<and> xs \<noteq> [])"
    by (simp add: has_recording_iff)
  then show ?thesis
    unfolding csv_loop_eq [of toString result] onClicked_def
    by (simp add: csv_row_def [abs_def] Let_def)
qed

text \<open>Of the four entries of the example store only \<open>A\<close> gives a line.\<close>

theorem export_rows_witness:
  "csv_loop digit_string sink_AB (''game_id,population_values'' @ [CHR 0x0A]) =
     ''game_id,population_values'' @ [CHR 0x0A] @ ''A,1,2,3'' @ [CHR 0x0A] \<and>
   onClicked digit_string id sink_AB =
     [Download (''data:text/csv;charset=utf-8,'' @ ''game_id,population_values'' @ [CHR 0x0A] @
        ''A,1,2,3'' @ [CHR 0x0A])] \<and>
   onClicked digit_string id [] = [ConsoleLog ''No recording data found in storage'']"
  using export_rows [of digit_string sink_AB id]
  by (simp add: sink_AB_def digit_string_def onClicked_def csv_row_def)

end
